theory Spec2Isabelle
  imports Main "HOL-Library.Sublist" "HOL-Library.Multiset" "HOL-Library.AList"
begin

section \<open>Strings of the JavaScript runtime\<close>

text \<open>
  The stores of \<^verbatim>\<open>topic-memory-manager.ts\<close> and \<^verbatim>\<open>memory-manager.ts\<close> only compare,
  lower-case and search strings. A string is a list of code units, here those of the
  first 256 code points (Latin-1). On them \<^verbatim>\<open>String.prototype.toLowerCase\<close> works unit
  by unit: the capitals \<open>A\<close>..\<open>Z\<close> (65..90) and the accented capitals U+00C0..U+00DE
  (192..222) without the multiplication sign U+00D7 (215) go to the small letter 32
  places further on, every other code unit stays. Code points beyond U+00FF, where
  lower-casing depends on the Unicode tables and on the neighbouring letters, are not
  part of this model.
\<close>

definition lower_char :: "char \<Rightarrow> char" where
  "lower_char c =
     (let n = (of_char c :: int) in
      if (65 \<le> n \<and> n \<le> 90) \<or> (192 \<le> n \<and> n \<le> 214) \<or> (216 \<le> n \<and> n \<le> 222)
      then char_of (n + 32) else c)"

definition toLowerCase :: "string \<Rightarrow> string" where
  "toLowerCase s = map lower_char s"

fun startsWith :: "string \<Rightarrow> string \<Rightarrow> bool" where
  "startsWith s [] = True"
| "startsWith [] (q # qs) = False"
| "startsWith (c # cs) (q # qs) = (c = q \<and> startsWith cs qs)"

text \<open>\<^verbatim>\<open>s.includes(q)\<close>: is \<open>q\<close> found at some position of \<open>s\<close>?\<close>

fun str_includes :: "string \<Rightarrow> string \<Rightarrow> bool" where
  "str_includes [] q = (q = [])"
| "str_includes (c # cs) q = (startsWith (c # cs) q \<or> str_includes cs q)"

section \<open>Ordinary objects used as dictionaries\<close>

text \<open>
  \<^verbatim>\<open>ProjectTopics\<close> is a plain object, \<^verbatim>\<open>{ [topicName: string]: TopicMemory }\<close>,
  created by \<^verbatim>\<open>JSON.parse\<close> or by the literal \<^verbatim>\<open>{}\<close>. Three rules of the language
  decide what \<^verbatim>\<open>topics[topic]\<close>, \<^verbatim>\<open>topics[topic] = v\<close>, \<^verbatim>\<open>Object.keys\<close> and
  \<^verbatim>\<open>Object.entries\<close> do with it, and the model keeps all three.

  \<^item> Own keys are enumerated with the array indices first (canonical decimal numerals
    below \<open>2^32 - 1\<close>, in ascending numeric order) and then every other key in the order
    of its creation. The object is therefore the list of its own properties in exactly
    this enumeration order; \<^verbatim>\<open>JSON.stringify\<close> writes that order and \<^verbatim>\<open>JSON.parse\<close>
    gives it back.
  \<^item> A read \<^verbatim>\<open>topics[k]\<close> that finds no own property continues in \<^verbatim>\<open>Object.prototype\<close>,
    so for the twelve names defined there it yields a function (or, for \<^verbatim>\<open>__proto__\<close>,
    the prototype object): a truthy value that is not a topic.
  \<^item> A write \<^verbatim>\<open>topics[k] = v\<close> replaces an own property in place or creates a new one,
    except that \<^verbatim>\<open>__proto__\<close> without an own property is an accessor of the prototype:
    the assignment changes the prototype of \<^verbatim>\<open>topics\<close> and creates no own property, so
    nothing of it reaches \<^verbatim>\<open>JSON.stringify\<close>.
\<close>

type_synonym 'v js_object = "(string \<times> 'v) list"

definition is_digit :: "char \<Rightarrow> bool" where
  "is_digit c = (let n = (of_char c :: nat) in 48 \<le> n \<and> n \<le> 57)"

fun decimal_value :: "int \<Rightarrow> string \<Rightarrow> int" where
  "decimal_value acc [] = acc"
| "decimal_value acc (c # cs) = decimal_value (10 * acc + (of_char c - 48)) cs"

definition index_value :: "string \<Rightarrow> int" where
  "index_value k = decimal_value 0 k"

definition is_array_index :: "string \<Rightarrow> bool" where
  "is_array_index k =
     (k \<noteq> [] \<and> list_all is_digit k \<and> (length k = 1 \<or> hd k \<noteq> CHR ''0'')
      \<and> index_value k < 4294967295)"

definition Object_prototype_keys :: "string list" where
  "Object_prototype_keys =
     [''constructor'', ''__defineGetter__'', ''__defineSetter__'', ''hasOwnProperty'',
      ''__lookupGetter__'', ''__lookupSetter__'', ''isPrototypeOf'',
      ''propertyIsEnumerable'', ''toString'', ''valueOf'', ''__proto__'',
      ''toLocaleString'']"

datatype 'v js_value = Own 'v | Inherited | Undefined

definition js_get :: "'v js_object \<Rightarrow> string \<Rightarrow> 'v js_value" where
  "js_get obj k =
     (case map_of obj k of
        Some v \<Rightarrow> Own v
      | None \<Rightarrow> if k \<in> set Object_prototype_keys then Inherited else Undefined)"

text \<open>Truthiness of the value read: an object or a function is truthy, \<^verbatim>\<open>undefined\<close> is not.\<close>

fun truthy :: "'v js_value \<Rightarrow> bool" where
  "truthy (Own v) = True"
| "truthy Inherited = True"
| "truthy Undefined = False"

fun replace_own :: "string \<Rightarrow> 'v \<Rightarrow> 'v js_object \<Rightarrow> 'v js_object" where
  "replace_own k v [] = []"
| "replace_own k v ((k', v') # rest) =
     (if k' = k then (k, v) # rest else (k', v') # replace_own k v rest)"

fun insert_index :: "string \<Rightarrow> 'v \<Rightarrow> 'v js_object \<Rightarrow> 'v js_object" where
  "insert_index k v [] = [(k, v)]"
| "insert_index k v ((k', v') # rest) =
     (if is_array_index k' \<and> index_value k' < index_value k
      then (k', v') # insert_index k v rest
      else (k, v) # (k', v') # rest)"

definition js_set :: "'v js_object \<Rightarrow> string \<Rightarrow> 'v \<Rightarrow> 'v js_object" where
  "js_set obj k v =
     (if map_of obj k \<noteq> None then replace_own k v obj
      else if k = ''__proto__'' then obj
      else if is_array_index k then insert_index k v obj
      else obj @ [(k, v)])"

definition js_delete :: "'v js_object \<Rightarrow> string \<Rightarrow> 'v js_object" where
  "js_delete obj k = filter (\<lambda>p. fst p \<noteq> k) obj"

definition Object_keys :: "'v js_object \<Rightarrow> string list" where
  "Object_keys obj = map fst obj"

definition Object_entries :: "'v js_object \<Rightarrow> (string \<times> 'v) list" where
  "Object_entries obj = obj"

text \<open>
  Every object of the runtime satisfies the enumeration rule: its keys are distinct, and
  a key that is an array index has only smaller array indices in front of it.
\<close>

definition index_before :: "string \<Rightarrow> string \<Rightarrow> bool" where
  "index_before a b =
     (is_array_index b \<longrightarrow> is_array_index a \<and> index_value a < index_value b)"

definition wf_object :: "'v js_object \<Rightarrow> bool" where
  "wf_object obj = (distinct (map fst obj) \<and> sorted_wrt index_before (map fst obj))"

text \<open>
  \<^verbatim>\<open>Array.prototype.sort(cmp)\<close> is stable; with a consistent comparator its result is
  the one stable insertion computes. \<open>cmp a b \<le> 0\<close> keeps \<open>a\<close> in front of \<open>b\<close>.
\<close>

fun js_insert :: "('a \<Rightarrow> 'a \<Rightarrow> int) \<Rightarrow> 'a \<Rightarrow> 'a list \<Rightarrow> 'a list" where
  "js_insert cmp x [] = [x]"
| "js_insert cmp x (y # ys) =
     (if cmp x y \<le> 0 then x # y # ys else y # js_insert cmp x ys)"

fun js_sort :: "('a \<Rightarrow> 'a \<Rightarrow> int) \<Rightarrow> 'a list \<Rightarrow> 'a list" where
  "js_sort cmp [] = []"
| "js_sort cmp (x # xs) = js_insert cmp x (js_sort cmp xs)"

text \<open>
  \<^verbatim>\<open>xs.slice(0, n)\<close>: a negative \<open>n\<close> counts from the end of the array.
\<close>

definition js_slice0 :: "int \<Rightarrow> 'a list \<Rightarrow> 'a list" where
  "js_slice0 n xs =
     (if n < 0 then take (nat (int (length xs) + n)) xs else take (nat n) xs)"

section \<open>The topic store\<close>

record TopicMemory =
  content :: string
  tags :: "string list"
  importance :: int
  timestamp :: int
  lastModified :: int

type_synonym ProjectTopics = "TopicMemory js_object"

text \<open>
  One file per project under the memory root. A file that exists holds either a document
  or text that \<^verbatim>\<open>readFile\<close>/\<^verbatim>\<open>JSON.parse\<close> rejects.
\<close>

datatype project_file = Document ProjectTopics | Unreadable

type_synonym file_system = "string \<Rightarrow> project_file option"

datatype error = NotFound | SaveFailed | PersistFailed

datatype 'a outcome = Threw error | Returned 'a | Wrote_untyped

text \<open>
  \<open>Wrote_untyped\<close>: the call returned normally after writing a value that lacks fields of
  \<^verbatim>\<open>TopicMemory\<close>; the model does not follow the program beyond that point.
\<close>

definition loadProject :: "file_system \<Rightarrow> string \<Rightarrow> ProjectTopics" where
  "loadProject fs projectName =
     (case fs projectName of
        Some (Document topics) \<Rightarrow> topics
      | Some Unreadable \<Rightarrow> []
      | None \<Rightarrow> [])"

text \<open>\<open>writable\<close> says whether \<^verbatim>\<open>fs.writeFile\<close> succeeds in this call.\<close>

definition saveProject ::
  "bool \<Rightarrow> file_system \<Rightarrow> string \<Rightarrow> ProjectTopics \<Rightarrow> file_system outcome" where
  "saveProject writable fs projectName topics =
     (if writable then Returned (fs(projectName \<mapsto> Document topics)) else Threw SaveFailed)"

definition clamp_importance :: "int \<Rightarrow> int" where
  "clamp_importance i = max 1 (min 10 i)"

text \<open>\<^verbatim>\<open>topics[topic]?.timestamp || now\<close>: a timestamp of \<open>0\<close> is falsy.\<close>

definition timestamp_or :: "TopicMemory js_value \<Rightarrow> int \<Rightarrow> int" where
  "timestamp_or existing now =
     (case existing of
        Own m \<Rightarrow> if timestamp m \<noteq> 0 then timestamp m else now
      | Inherited \<Rightarrow> now
      | Undefined \<Rightarrow> now)"

definition store_topic ::
  "int \<Rightarrow> ProjectTopics \<Rightarrow> string \<Rightarrow> string \<Rightarrow> string list \<Rightarrow> int \<Rightarrow> ProjectTopics" where
  "store_topic now topics topic c tgs imp =
     js_set topics topic
       \<lparr>content = c, tags = tgs, importance = clamp_importance imp,
        timestamp = timestamp_or (js_get topics topic) now, lastModified = now\<rparr>"

definition storeTopicMemory ::
  "bool \<Rightarrow> int \<Rightarrow> file_system \<Rightarrow> string \<Rightarrow> string \<Rightarrow> string \<Rightarrow> string list \<Rightarrow> int
     \<Rightarrow> file_system outcome" where
  "storeTopicMemory writable now fs projectName topic c tgs imp =
     saveProject writable fs projectName
       (store_topic now (loadProject fs projectName) topic c tgs imp)"

text \<open>
  \<^verbatim>\<open>topics[topic] || null\<close>: \<open>Undefined\<close> stands for the \<^verbatim>\<open>null\<close> returned; an inherited
  value is truthy and is returned as it is.
\<close>

definition getTopicMemory :: "file_system \<Rightarrow> string \<Rightarrow> string \<Rightarrow> TopicMemory js_value" where
  "getTopicMemory fs projectName topic = js_get (loadProject fs projectName) topic"

definition listTopics :: "file_system \<Rightarrow> string \<Rightarrow> string list" where
  "listTopics fs projectName = Object_keys (loadProject fs projectName)"

text \<open>
  \<^verbatim>\<open>searchTopicMemories\<close>: the loop over \<^verbatim>\<open>Object.entries(topics)\<close> adds up the score
  of one topic and pushes the topics with a positive score; the array is then sorted
  and sliced.
\<close>

record search_hit =
  hit_topic :: string
  hit_memory :: TopicMemory
  score :: int

definition topic_score :: "string \<Rightarrow> string \<Rightarrow> TopicMemory \<Rightarrow> int" where
  "topic_score queryLower topicName m =
     (let contentLower = toLowerCase (content m);
          tagsLower = map toLowerCase (tags m);
          s0 = 0;
          s1 = (if str_includes contentLower queryLower then s0 + 3 else s0);
          s2 = (if list_ex (\<lambda>tag. str_includes tag queryLower) tagsLower then s1 + 2 else s1);
          s3 = (if str_includes (toLowerCase topicName) queryLower then s2 + 1 else s2)
      in s3)"

fun search_loop ::
  "string \<Rightarrow> (string \<times> TopicMemory) list \<Rightarrow> search_hit list \<Rightarrow> search_hit list" where
  "search_loop queryLower [] results = results"
| "search_loop queryLower ((topicName, m) # rest) results =
     (let sc = topic_score queryLower topicName m in
      search_loop queryLower rest
        (if sc > 0 then results @ [\<lparr>hit_topic = topicName, hit_memory = m, score = sc\<rparr>]
         else results))"

text \<open>\<^verbatim>\<open>b.score - a.score || b.memory.importance - a.memory.importance\<close>\<close>

definition compare_hits :: "search_hit \<Rightarrow> search_hit \<Rightarrow> int" where
  "compare_hits a b =
     (let d = score b - score a in
      if d \<noteq> 0 then d else importance (hit_memory b) - importance (hit_memory a))"

definition search_results :: "file_system \<Rightarrow> string \<Rightarrow> string \<Rightarrow> search_hit list" where
  "search_results fs projectName query =
     search_loop (toLowerCase query) (Object_entries (loadProject fs projectName)) []"

definition searchTopicMemories ::
  "file_system \<Rightarrow> string \<Rightarrow> string \<Rightarrow> int \<Rightarrow> search_hit list" where
  "searchTopicMemories fs projectName query limit =
     js_slice0 limit (js_sort compare_hits (search_results fs projectName query))"

text \<open>
  \<^verbatim>\<open>updateTopicMemory\<close>. When \<^verbatim>\<open>topics[topic]\<close> is an inherited value, \<^verbatim>\<open>!existing\<close> is
  false and nothing is thrown; every field read from it is \<^verbatim>\<open>undefined\<close>. For
  \<^verbatim>\<open>__proto__\<close> the assignment creates no own property and the document is written
  back as it was; for the other inherited names an object without the missing fields
  is written.
\<close>

definition updateTopicMemory ::
  "bool \<Rightarrow> int \<Rightarrow> file_system \<Rightarrow> string \<Rightarrow> string \<Rightarrow> string option \<Rightarrow> string list option
     \<Rightarrow> int option \<Rightarrow> file_system outcome" where
  "updateTopicMemory writable now fs projectName topic c tgs imp =
     (let topics = loadProject fs projectName in
      case js_get topics topic of
        Undefined \<Rightarrow> Threw NotFound
      | Own existing \<Rightarrow>
          saveProject writable fs projectName
            (js_set topics topic
               \<lparr>content = (case c of Some c' \<Rightarrow> c' | None \<Rightarrow> content existing),
                tags = (case tgs of Some t' \<Rightarrow> t' | None \<Rightarrow> tags existing),
                importance =
                  (case imp of Some i \<Rightarrow> clamp_importance i | None \<Rightarrow> importance existing),
                timestamp = timestamp existing,
                lastModified = now\<rparr>)
      | Inherited \<Rightarrow>
          if topic = ''__proto__'' then saveProject writable fs projectName topics
          else if writable then Wrote_untyped
          else Threw SaveFailed)"

definition deleteTopicMemory ::
  "bool \<Rightarrow> file_system \<Rightarrow> string \<Rightarrow> string \<Rightarrow> file_system outcome" where
  "deleteTopicMemory writable fs projectName topic =
     (let topics = loadProject fs projectName in
      if truthy (js_get topics topic)
      then saveProject writable fs projectName (js_delete topics topic)
      else Returned fs)"

definition FIXED_TOPICS :: "string list" where
  "FIXED_TOPICS =
     [''summary'', ''libraries'', ''change-history'', ''architecture'', ''todo'', ''bugs'',
      ''features'', ''documentation'', ''testing'', ''deployment'']"

definition upper_char :: "char \<Rightarrow> char" where
  "upper_char c =
     (let n = (of_char c :: nat) in if 97 \<le> n \<and> n \<le> 122 then char_of (n - 32) else c)"

text \<open>\<^verbatim>\<open>topic.charAt(0).toUpperCase() + topic.slice(1)\<close>\<close>

definition capitalize :: "string \<Rightarrow> string" where
  "capitalize topic = map upper_char (take 1 topic) @ drop 1 topic"

definition placeholder :: "int \<Rightarrow> string \<Rightarrow> TopicMemory" where
  "placeholder now topic =
     \<lparr>content = ''# '' @ capitalize topic @ [CHR 0x0A, CHR 0x0A] @ ''Aguardando conte''
                 @ [CHR 0xFA] @ ''do...'',
      tags = [''fixed-topic'', topic],
      importance = 5,
      timestamp = now,
      lastModified = now\<rparr>"

fun init_loop :: "int \<Rightarrow> string list \<Rightarrow> ProjectTopics \<Rightarrow> ProjectTopics" where
  "init_loop now [] topics = topics"
| "init_loop now (topic # rest) topics =
     init_loop now rest
       (if \<not> truthy (js_get topics topic) then js_set topics topic (placeholder now topic)
        else topics)"

definition initializeFixedTopics ::
  "bool \<Rightarrow> int \<Rightarrow> file_system \<Rightarrow> string \<Rightarrow> file_system outcome" where
  "initializeFixedTopics writable now fs projectName =
     saveProject writable fs projectName
       (init_loop now FIXED_TOPICS (loadProject fs projectName))"

text \<open>A sequence of \<^verbatim>\<open>storeTopicMemory\<close> calls on one project, each of which returns.\<close>

record store_call =
  call_time :: int
  call_topic :: string
  call_content :: string
  call_tags :: "string list"
  call_importance :: int

fun store_all :: "file_system \<Rightarrow> string \<Rightarrow> store_call list \<Rightarrow> file_system outcome" where
  "store_all fs projectName [] = Returned fs"
| "store_all fs projectName (c # cs) =
     (case storeTopicMemory True (call_time c) fs projectName (call_topic c)
             (call_content c) (call_tags c) (call_importance c) of
        Returned fs' \<Rightarrow> store_all fs' projectName cs
      | failed \<Rightarrow> failed)"

section \<open>The memory store and its cache\<close>

record Memory =
  mem_id :: string
  mem_content :: string
  mem_tags :: "string list"
  mem_timestamp :: int
  mem_importance :: int
  projectContext :: string

text \<open>
  The store keeps one file \<^verbatim>\<open><id>.json\<close> per memory in its directory (the list is the
  directory, in the order \<^verbatim>\<open>readdir\<close> reports it, each file under the id in its name)
  and an \<^verbatim>\<open>LRUCache\<close> in front of it.
  A file holds a memory or text that cannot be read back. The cache library drops entries
  on its own, by capacity or by age; \<open>evict\<close> is one such removal and may happen at any
  time.
\<close>

datatype memory_file = Stored Memory | Garbled

record memory_store =
  cache :: "string \<Rightarrow> Memory option"
  disk :: "(string \<times> memory_file) list"
  context_name :: string

definition evict :: "string \<Rightarrow> memory_store \<Rightarrow> memory_store" where
  "evict k s = s\<lparr>cache := (cache s)(k := None)\<rparr>"

text \<open>\<^verbatim>\<open>persistMemory\<close> writes \<^verbatim>\<open><memory.id>.json\<close>; \<open>writable\<close>: \<^verbatim>\<open>writeFile\<close> succeeds.\<close>

definition persistMemory :: "bool \<Rightarrow> Memory \<Rightarrow> memory_store \<Rightarrow> unit outcome \<times> memory_store" where
  "persistMemory writable m s =
     (if writable
      then (Returned (), s\<lparr>disk := AList.update (mem_id m) (Stored m) (disk s)\<rparr>)
      else (Threw PersistFailed, s))"

text \<open>
  \<^verbatim>\<open>storeMemory\<close>; \<open>new_id\<close> is what \<^verbatim>\<open>generateMemoryId()\<close> returned (a time prefix and
  a random suffix), \<open>now\<close> the clock.
\<close>

definition storeMemory ::
  "bool \<Rightarrow> string \<Rightarrow> int \<Rightarrow> string \<Rightarrow> string list \<Rightarrow> int \<Rightarrow> memory_store
     \<Rightarrow> Memory outcome \<times> memory_store" where
  "storeMemory writable new_id now c tgs imp s =
     (let m = \<lparr>mem_id = new_id, mem_content = c, mem_tags = tgs, mem_timestamp = now,
                mem_importance = max 1 (min 10 imp), projectContext = context_name s\<rparr>;
          s1 = s\<lparr>cache := (cache s)(new_id \<mapsto> m)\<rparr>
      in case persistMemory writable m s1 of
           (r, s2) \<Rightarrow> (map_outcome (\<lambda>u. m) r, s2))"

definition getMemory :: "string \<Rightarrow> memory_store \<Rightarrow> Memory option \<times> memory_store" where
  "getMemory k s =
     (case cache s k of
        Some cached \<Rightarrow> (Some cached, s)
      | None \<Rightarrow>
          (case map_of (disk s) k of
             Some (Stored m) \<Rightarrow> (Some m, s\<lparr>cache := (cache s)(k \<mapsto> m)\<rparr>)
           | Some Garbled \<Rightarrow> (None, s)
           | None \<Rightarrow> (None, s)))"

definition updateMemory ::
  "bool \<Rightarrow> string \<Rightarrow> string option \<Rightarrow> string list option \<Rightarrow> int option \<Rightarrow> memory_store
     \<Rightarrow> bool outcome \<times> memory_store" where
  "updateMemory writable k c tgs imp s =
     (case getMemory k s of
        (None, s1) \<Rightarrow> (Returned False, s1)
      | (Some m, s1) \<Rightarrow>
          (let m1 = (case c of Some c' \<Rightarrow> m\<lparr>mem_content := c'\<rparr> | None \<Rightarrow> m);
               m2 = (case tgs of Some t' \<Rightarrow> m1\<lparr>mem_tags := t'\<rparr> | None \<Rightarrow> m1);
               m3 = (case imp of Some i \<Rightarrow> m2\<lparr>mem_importance := max 1 (min 10 i)\<rparr>
                                | None \<Rightarrow> m2);
               s2 = s1\<lparr>cache := (cache s1)(k \<mapsto> m3)\<rparr>
           in case persistMemory writable m3 s2 of
                (r, s3) \<Rightarrow> (map_outcome (\<lambda>u. True) r, s3)))"

text \<open>
  \<^verbatim>\<open>deleteMemory\<close> never throws: a failing \<^verbatim>\<open>unlink\<close> is caught and reported as
  \<^verbatim>\<open>false\<close>, after the cache entry is gone. \<open>removable\<close>: \<^verbatim>\<open>unlink\<close> succeeds.
\<close>

definition deleteMemory :: "bool \<Rightarrow> string \<Rightarrow> memory_store \<Rightarrow> bool \<times> memory_store" where
  "deleteMemory removable k s =
     (let s1 = s\<lparr>cache := (cache s)(k := None)\<rparr> in
      if map_of (disk s1) k \<noteq> None
      then (if removable then (True, s1\<lparr>disk := AList.delete k (disk s1)\<rparr>) else (False, s1))
      else (True, s1))"

text \<open>
  \<^verbatim>\<open>loadAllMemories\<close> reads every file of the directory and skips the ones it cannot
  parse; when the directory cannot be listed it returns the empty array.
\<close>

fun file_memories :: "(string \<times> memory_file) list \<Rightarrow> Memory list" where
  "file_memories [] = []"
| "file_memories ((k, Stored m) # files) = m # file_memories files"
| "file_memories ((k, Garbled) # files) = file_memories files"

definition loadAllMemories :: "bool \<Rightarrow> memory_store \<Rightarrow> Memory list" where
  "loadAllMemories listable s = (if listable then file_memories (disk s) else [])"

fun cleanup_loop ::
  "(string \<Rightarrow> bool) \<Rightarrow> int \<Rightarrow> Memory list \<Rightarrow> nat \<Rightarrow> memory_store \<Rightarrow> nat \<times> memory_store" where
  "cleanup_loop removable cutoffTime [] deletedCount s = (deletedCount, s)"
| "cleanup_loop removable cutoffTime (m # ms) deletedCount s =
     (if mem_timestamp m < cutoffTime \<and> mem_importance m < 5
      then (case deleteMemory (removable (mem_id m)) (mem_id m) s of
              (deleted, s') \<Rightarrow>
                cleanup_loop removable cutoffTime ms
                  (if deleted then deletedCount + 1 else deletedCount) s')
      else cleanup_loop removable cutoffTime ms deletedCount s)"

definition cleanupOldMemories ::
  "bool \<Rightarrow> (string \<Rightarrow> bool) \<Rightarrow> int \<Rightarrow> int \<Rightarrow> memory_store \<Rightarrow> nat \<times> memory_store" where
  "cleanupOldMemories listable removable now maxAge s =
     (let memories = loadAllMemories listable s;
          cutoffTime = now - maxAge
      in cleanup_loop removable cutoffTime memories 0 s)"

text \<open>The operations of the store as steps on its state, with the evictions between them.\<close>

datatype operation =
    StoreMemory bool string int string "string list" int
  | GetMemory string
  | UpdateMemory bool string "string option" "string list option" "int option"
  | DeleteMemory bool string
  | Evict string

fun step :: "operation \<Rightarrow> memory_store \<Rightarrow> memory_store" where
  "step (StoreMemory writable new_id now c tgs imp) s =
     snd (storeMemory writable new_id now c tgs imp s)"
| "step (GetMemory k) s = snd (getMemory k s)"
| "step (UpdateMemory writable k c tgs imp) s = snd (updateMemory writable k c tgs imp s)"
| "step (DeleteMemory removable k) s = snd (deleteMemory removable k s)"
| "step (Evict k) s = evict k s"

fun run :: "operation list \<Rightarrow> memory_store \<Rightarrow> memory_store" where
  "run [] s = s"
| "run (op # ops) s = run ops (step op s)"

text \<open>No \<^verbatim>\<open>writeFile\<close> of the operation fails.\<close>

fun writes_succeed :: "operation \<Rightarrow> bool" where
  "writes_succeed (StoreMemory writable new_id now c tgs imp) = writable"
| "writes_succeed (UpdateMemory writable k c tgs imp) = writable"
| "writes_succeed (GetMemory k) = True"
| "writes_succeed (DeleteMemory removable k) = True"
| "writes_succeed (Evict k) = True"

text \<open>
  The directory belongs to the store alone: every readable file \<^verbatim>\<open><k>.json\<close> in it was
  written by \<^verbatim>\<open>persistMemory\<close> and holds the memory whose id is \<open>k\<close>.
\<close>

definition own_files :: "(string \<times> memory_file) list \<Rightarrow> bool" where
  "own_files files =
     (distinct (map fst files)
      \<and> list_all (\<lambda>(k, f). case f of Stored m \<Rightarrow> mem_id m = k | Garbled \<Rightarrow> True) files)"

definition coherent :: "memory_store \<Rightarrow> bool" where
  "coherent s = (\<forall>k m. cache s k = Some m \<longrightarrow> map_of (disk s) k = Some (Stored m))"

section \<open>Detection of the project identity\<close>






































section \<open>Vocabulary of the specification\<close>

text \<open>
  Matching without regard to case, in the words of the specification and without
  reference to the lower-casing of the runtime. The alphabet has each capital letter
  beside its small letter; two characters are the same letter when they are equal or are
  the capital and the small form of one letter; a field contains a query when some
  contiguous piece of the field is the query, letter for letter.
\<close>

definition capital_letters :: string where
  "capital_letters =
     ''ABCDEFGHIJKLMNOPQRSTUVWXYZ''
     @ [CHR 0xC0, CHR 0xC1, CHR 0xC2, CHR 0xC3, CHR 0xC4, CHR 0xC5, CHR 0xC6, CHR 0xC7,
        CHR 0xC8, CHR 0xC9, CHR 0xCA, CHR 0xCB, CHR 0xCC, CHR 0xCD, CHR 0xCE, CHR 0xCF,
        CHR 0xD0, CHR 0xD1, CHR 0xD2, CHR 0xD3, CHR 0xD4, CHR 0xD5, CHR 0xD6,
        CHR 0xD8, CHR 0xD9, CHR 0xDA, CHR 0xDB, CHR 0xDC, CHR 0xDD, CHR 0xDE]"

definition small_letters :: string where
  "small_letters =
     ''abcdefghijklmnopqrstuvwxyz''
     @ [CHR 0xE0, CHR 0xE1, CHR 0xE2, CHR 0xE3, CHR 0xE4, CHR 0xE5, CHR 0xE6, CHR 0xE7,
        CHR 0xE8, CHR 0xE9, CHR 0xEA, CHR 0xEB, CHR 0xEC, CHR 0xED, CHR 0xEE, CHR 0xEF,
        CHR 0xF0, CHR 0xF1, CHR 0xF2, CHR 0xF3, CHR 0xF4, CHR 0xF5, CHR 0xF6,
        CHR 0xF8, CHR 0xF9, CHR 0xFA, CHR 0xFB, CHR 0xFC, CHR 0xFD, CHR 0xFE]"

definition letter_pairs :: "(char \<times> char) list" where
  "letter_pairs = zip capital_letters small_letters"

definition same_letter :: "char \<Rightarrow> char \<Rightarrow> bool" where
  "same_letter a b = (a = b \<or> (a, b) \<in> set letter_pairs \<or> (b, a) \<in> set letter_pairs)"

definition contains_ci :: "string \<Rightarrow> string \<Rightarrow> bool" where
  "contains_ci field query =
     (\<exists>piece \<in> set (sublists field). list_all2 same_letter piece query)"

text \<open>The scoring rule: the content counts 3, any tag 2, the topic name 1.\<close>

definition spec_score :: "string \<Rightarrow> string \<Rightarrow> TopicMemory \<Rightarrow> int" where
  "spec_score query topicName m =
     (if contains_ci (content m) query then 3 else 0)
     + (if \<exists>tag \<in> set (tags m). contains_ci tag query then 2 else 0)
     + (if contains_ci topicName query then 1 else 0)"



text \<open>The names of a sequence in the order of their first occurrence.\<close>

definition first_occurrences :: "string list \<Rightarrow> string list" where
  "first_occurrences ks = rev (remdups (rev ks))"

text \<open>
  Old and unimportant, in the words of the specification: older than \<open>now - maxAge\<close> and
  of importance below the retention threshold 5.
\<close>

definition expired :: "int \<Rightarrow> int \<Rightarrow> Memory \<Rightarrow> bool" where
  "expired now maxAge m = (mem_timestamp m < now - maxAge \<and> mem_importance m < 5)"


section \<open>Auxiliary notions\<close>

text \<open>The listing of a project after a sequence of stores that all return.\<close>

definition listing_after :: "file_system \<Rightarrow> string \<Rightarrow> store_call list \<Rightarrow> string list option" where
  "listing_after fs projectName calls =
     (case store_all fs projectName calls of
        Returned fs' \<Rightarrow> Some (listTopics fs' projectName)
      | failed \<Rightarrow> None)"

text \<open>Decimal numerals without a leading zero (the empty one stands for zero).\<close>

definition no_leading_zero :: "string \<Rightarrow> bool" where
  "no_leading_zero s = (list_all is_digit s \<and> (s = [] \<or> hd s \<noteq> CHR ''0''))"

text \<open>Where a new array index goes among the keys.\<close>

definition smaller_index :: "string \<Rightarrow> string \<Rightarrow> bool" where
  "smaller_index k k' = (is_array_index k' \<and> index_value k' < index_value k)"

definition insert_key :: "string \<Rightarrow> string list \<Rightarrow> string list" where
  "insert_key k ks = takeWhile (smaller_index k) ks @ k # dropWhile (smaller_index k) ks"


section \<open>Example data\<close>

text \<open>The files of an empty memory root, and the example project of the specification.\<close>

definition no_files :: file_system where
  "no_files = (\<lambda>projectName. None)"

definition shop_topics :: ProjectTopics where
  "shop_topics =
     [(''bugs'', \<lparr>content = ''CPF validation rejects accents'', tags = [''checkout''],
                  importance = 9, timestamp = 1000, lastModified = 1000\<rparr>),
      (''todo'', \<lparr>content = ''call the bank'', tags = [''cpf'', ''later''],
                  importance = 4, timestamp = 1200, lastModified = 1300\<rparr>),
      (''notes'', \<lparr>content = ''cpf field is optional'', tags = [],
                   importance = 2, timestamp = 1400, lastModified = 1400\<rparr>)]"

definition shop_fs :: file_system where
  "shop_fs = no_files(''shop'' \<mapsto> Document shop_topics)"

definition shop_initialized :: file_system where
  "shop_initialized = shop_fs(''shop'' \<mapsto> Document (init_loop 5000 FIXED_TOPICS shop_topics))"




text \<open>A project whose only topic carries the time stamp \<open>0\<close>.\<close>

definition epoch_fs :: file_system where
  "epoch_fs =
     no_files(''shop'' \<mapsto> Document
       [(''bugs'', \<lparr>content = ''old text'', tags = [''checkout''], importance = 3,
                    timestamp = 0, lastModified = 0\<rparr>)])"

text \<open>Two sequences of stores on one project.\<close>

definition two_stores :: "store_call list" where
  "two_stores =
     [\<lparr>call_time = 1000, call_topic = ''roadmap'', call_content = ''plan of the year'',
       call_tags = [], call_importance = 5\<rparr>,
      \<lparr>call_time = 2000, call_topic = ''2024'', call_content = ''what was shipped'',
       call_tags = [], call_importance = 5\<rparr>]"

definition five_stores :: "store_call list" where
  "five_stores =
     [\<lparr>call_time = 1000, call_topic = ''roadmap'', call_content = ''plan'',
       call_tags = [], call_importance = 5\<rparr>,
      \<lparr>call_time = 2000, call_topic = ''10'', call_content = ''ticket ten'',
       call_tags = [], call_importance = 5\<rparr>,
      \<lparr>call_time = 3000, call_topic = ''notes'', call_content = ''misc'',
       call_tags = [], call_importance = 5\<rparr>,
      \<lparr>call_time = 4000, call_topic = ''7'', call_content = ''ticket seven'',
       call_tags = [], call_importance = 5\<rparr>,
      \<lparr>call_time = 5000, call_topic = ''roadmap'', call_content = ''plan, revised'',
       call_tags = [], call_importance = 6\<rparr>]"

text \<open>
  A memory directory a hundred days into its life: a minor memory of forty days, a
  major one of ninety days, a file that cannot be read and a minor memory of yesterday;
  and a session of the store on it.
\<close>

definition day :: int where
  "day = 24 * 60 * 60 * 1000"

definition aged_store :: memory_store where
  "aged_store =
     \<lparr>cache = (\<lambda>k. None),
      disk =
        [(''mem-a'', Stored \<lparr>mem_id = ''mem-a'', mem_content = ''forty days, minor'',
            mem_tags = [], mem_timestamp = 60 * day, mem_importance = 3,
            projectContext = ''shop''\<rparr>),
         (''mem-b'', Stored \<lparr>mem_id = ''mem-b'', mem_content = ''ninety days, major'',
            mem_tags = [], mem_timestamp = 10 * day, mem_importance = 7,
            projectContext = ''shop''\<rparr>),
         (''mem-c'', Garbled),
         (''mem-d'', Stored \<lparr>mem_id = ''mem-d'', mem_content = ''yesterday, minor'',
            mem_tags = [], mem_timestamp = 99 * day, mem_importance = 1,
            projectContext = ''shop''\<rparr>)],
      context_name = ''shop''\<rparr>"

definition always_removable :: "string \<Rightarrow> bool" where
  "always_removable k = True"

definition session :: "operation list" where
  "session =
     [StoreMemory True ''mem-x'' (100 * day) ''first text'' [''draft''] 0,
      Evict ''mem-x'',
      GetMemory ''mem-x'',
      UpdateMemory True ''mem-x'' (Some ''second text'') None (Some 15),
      GetMemory ''mem-b'',
      DeleteMemory True ''mem-a'',
      Evict ''mem-b'']"

text \<open>
  Two sessions in which a \<^verbatim>\<open>writeFile\<close> fails: a store that cannot be written, and an
  update that cannot be written after a store that could.
\<close>

definition unsaved_store :: "operation list" where
  "unsaved_store = [StoreMemory False ''mem-y'' (100 * day) ''unsaved text'' [''draft''] 5]"

definition unsaved_update :: "operation list" where
  "unsaved_update =
     [StoreMemory True ''mem-x'' (100 * day) ''first text'' [''draft''] 5,
      UpdateMemory False ''mem-x'' (Some ''second text'') None None]"




section \<open>Search\<close>

lemma startsWith_prefix: "startsWith s q = prefix q s"
  by (induction s q rule: startsWith.induct) auto

lemma str_includes_sublist: "str_includes s q = sublist q s"
proof (induction s)
  case Nil
  then show ?case by auto
next
  case (Cons c cs)
  show ?case
  proof (cases q)
    case Nil
    then show ?thesis by simp
  next
    case (Cons a as)
    then show ?thesis using Cons.IH
      by (simp add: startsWith_prefix sublist_Cons_right)
  qed
qed

text \<open>
  The lower-casing of the runtime and the alphabet agree: two characters have the same
  lower-case form exactly when they are the same letter, so the search of the code, which
  looks for the lower-cased query in the lower-cased field, is the match without regard
  to case.
\<close>

lemma pairs_lowered:
  "list_all (\<lambda>(x, y). lower_char x = y \<and> lower_char y = y) letter_pairs"
  by code_simp

lemma pairs_distinct: "distinct (map snd letter_pairs)"
  by code_simp

lemma lowered_in_pairs:
  "list_all (\<lambda>x. lower_char x = x \<or> (x, lower_char x) \<in> set letter_pairs) Enum.enum"
  by code_simp


lemma lower_of_pair: "(x, y) \<in> set letter_pairs \<Longrightarrow> lower_char x = y \<and> lower_char y = y"
  using pairs_lowered by (auto simp: list_all_iff)

lemma pair_of_lower: "lower_char x \<noteq> x \<Longrightarrow> (x, lower_char x) \<in> set letter_pairs"
  using lowered_in_pairs by (auto simp: list_all_iff enum_UNIV)

lemma one_capital:
  "distinct (map snd ps) \<Longrightarrow> (a, c) \<in> set ps \<Longrightarrow> (b, c) \<in> set ps \<Longrightarrow> a = b"
  by (induction ps) (auto simp: image_iff)

lemma same_letter_lower: "same_letter a b \<longleftrightarrow> lower_char a = lower_char b"
proof
  assume "same_letter a b"
  then show "lower_char a = lower_char b"
    using lower_of_pair by (auto simp: same_letter_def)
next
  assume e: "lower_char a = lower_char b"
  show "same_letter a b"
  proof (cases "lower_char a = a")
    case True
    show ?thesis
    proof (cases "lower_char b = b")
      case True
      then show ?thesis using e \<open>lower_char a = a\<close> by (simp add: same_letter_def)
    next
      case False
      then have "(b, a) \<in> set letter_pairs" using pair_of_lower [of b] e True by simp
      then show ?thesis by (simp add: same_letter_def)
    qed
  next
    case False
    then have pa: "(a, lower_char a) \<in> set letter_pairs" by (rule pair_of_lower)
    show ?thesis
    proof (cases "lower_char b = b")
      case True
      then show ?thesis using pa e by (simp add: same_letter_def)
    next
      case False
      then have "(b, lower_char a) \<in> set letter_pairs" using pair_of_lower [of b] e by simp
      then have "a = b" using one_capital [OF pairs_distinct pa] by simp
      then show ?thesis by (simp add: same_letter_def)
    qed
  qed
qed

lemma sublist_map_iff:
  "sublist xs (map f ys) \<longleftrightarrow> (\<exists>piece. sublist piece ys \<and> map f piece = xs)"
proof
  assume "sublist xs (map f ys)"
  then obtain ps ss where "map f ys = ps @ xs @ ss" unfolding sublist_def by blast
  then obtain ps' r where r: "ys = ps' @ r" "map f r = xs @ ss"
    by (metis map_eq_append_conv)
  then obtain xs' ss' where x: "r = xs' @ ss'" "map f xs' = xs"
    by (metis map_eq_append_conv)
  have "ys = ps' @ xs' @ ss'" using r(1) x(1) by simp
  then have "sublist xs' ys" unfolding sublist_def by blast
  then show "\<exists>piece. sublist piece ys \<and> map f piece = xs" using x(2) by blast
next
  assume "\<exists>piece. sublist piece ys \<and> map f piece = xs"
  then obtain piece where p: "sublist piece ys" "map f piece = xs" by blast
  then obtain ps ss where "ys = ps @ piece @ ss" unfolding sublist_def by blast
  then have "map f ys = map f ps @ xs @ map f ss" using p(2) by simp
  then show "sublist xs (map f ys)" unfolding sublist_def by blast
qed

lemma map_eq_all2: "map f xs = map f ys \<longleftrightarrow> list_all2 (\<lambda>a b. f a = f b) xs ys"
  by (auto simp: list_all2_conv_all_nth list_eq_iff_nth_eq)

lemma contains_ci_lower: "contains_ci s q = sublist (toLowerCase q) (toLowerCase s)"
proof -
  have "list_all2 same_letter piece q = (map lower_char piece = map lower_char q)" for piece
    unfolding map_eq_all2 same_letter_lower ..
  then show ?thesis
    by (simp add: contains_ci_def toLowerCase_def sublist_map_iff Bex_def)
qed

lemma topic_score_spec: "topic_score (toLowerCase q) t m = spec_score q t m"
  by (simp add: topic_score_def spec_score_def contains_ci_lower str_includes_sublist
      list_ex_iff Let_def)

lemma search_loop_acc:
  "search_loop ql es acc =
     acc @ filter (\<lambda>h. 0 < score h)
             (map (\<lambda>(t, m). \<lparr>hit_topic = t, hit_memory = m, score = topic_score ql t m\<rparr>) es)"
  by (induction ql es acc rule: search_loop.induct) (auto simp: Let_def)

lemma search_results_spec:
  "search_results fs p q =
     filter (\<lambda>h. 0 < score h)
       (map (\<lambda>(t, m). \<lparr>hit_topic = t, hit_memory = m, score = spec_score q t m\<rparr>)
          (Object_entries (loadProject fs p)))"
  by (simp add: search_results_def search_loop_acc topic_score_spec)



lemma mset_js_insert: "mset (js_insert cmp x ys) = add_mset x (mset ys)"
  by (induction ys) auto

lemma mset_js_sort: "mset (js_sort cmp xs) = mset xs"
  by (induction xs) (auto simp: mset_js_insert)

lemma length_js_sort: "length (js_sort cmp xs) = length xs"
  using mset_js_sort [of cmp xs] by (metis size_mset)









section \<open>The empty query\<close>

lemma toLowerCase_Nil: "toLowerCase [] = []"
  by (simp add: toLowerCase_def)

lemma spec_score_empty_query:
  "spec_score [] t m = (if tags m = [] then 4 else 6)"
  by (auto simp: spec_score_def contains_ci_lower toLowerCase_Nil)

lemma search_results_empty_query:
  "search_results fs p [] =
     map (\<lambda>(t, m). \<lparr>hit_topic = t, hit_memory = m, score = (if tags m = [] then 4 else 6)\<rparr>)
       (Object_entries (loadProject fs p))"
proof -
  have "filter (\<lambda>h. 0 < score h)
          (map (\<lambda>(t, m). \<lparr>hit_topic = t, hit_memory = m, score = spec_score [] t m\<rparr>) es)
        = map (\<lambda>(t, m). \<lparr>hit_topic = t, hit_memory = m,
                          score = (if tags m = [] then 4 else 6)\<rparr>) es" for es
    by (induction es) (auto simp: spec_score_empty_query)
  then show ?thesis by (simp add: search_results_spec)
qed

text \<open>
  C10. The empty query. The empty string occurs in every content and in every topic name,
  and in a tag as soon as there is one: with a limit of at least the number of stored
  topics the search returns one hit for every stored topic, with score 4 when the topic
  has no tag and 6 when it has one, so never less than 4.
\<close>

theorem empty_query_matches_every_topic:
  assumes "int (length (Object_entries (loadProject fs p))) \<le> limit"
  shows "mset (map (\<lambda>h. (hit_topic h, hit_memory h)) (searchTopicMemories fs p [] limit))
           = mset (Object_entries (loadProject fs p))
       \<and> (\<forall>h \<in> set (searchTopicMemories fs p [] limit).
             4 \<le> score h \<and> score h = (if tags (hit_memory h) = [] then 4 else 6))"
proof -
  let ?hits = "search_results fs p []"
  have len: "length ?hits = length (Object_entries (loadProject fs p))"
    by (simp add: search_results_empty_query)
  have "int (length (js_sort compare_hits ?hits)) \<le> limit"
    using assms len by (simp add: length_js_sort)
  then have all: "searchTopicMemories fs p [] limit = js_sort compare_hits ?hits"
    by (simp add: searchTopicMemories_def js_slice0_def)
  have "mset (map (\<lambda>h. (hit_topic h, hit_memory h)) (js_sort compare_hits ?hits))
        = mset (map (\<lambda>h. (hit_topic h, hit_memory h)) ?hits)"
    by (metis mset_js_sort mset_map)
  also have "map (\<lambda>h. (hit_topic h, hit_memory h)) ?hits = Object_entries (loadProject fs p)"
    by (simp add: search_results_empty_query o_def case_prod_unfold)
  finally have one: "mset (map (\<lambda>h. (hit_topic h, hit_memory h)) (searchTopicMemories fs p [] limit))
           = mset (Object_entries (loadProject fs p))"
    using all by simp
  have "set (js_sort compare_hits ?hits) = set ?hits"
    by (metis mset_js_sort set_mset_mset)
  then have two: "\<forall>h \<in> set (searchTopicMemories fs p [] limit).
             4 \<le> score h \<and> score h = (if tags (hit_memory h) = [] then 4 else 6)"
    using all by (auto simp: search_results_empty_query)
  show ?thesis using one two by blast
qed

theorem empty_query_matches_every_topic_witness:
  "int (length (Object_entries (loadProject shop_fs ''shop''))) \<le> 3
   \<and> mset (map (\<lambda>h. (hit_topic h, hit_memory h)) (searchTopicMemories shop_fs ''shop'' [] 3))
       = mset (Object_entries (loadProject shop_fs ''shop''))
   \<and> map (\<lambda>h. (hit_topic h, score h)) (searchTopicMemories shop_fs ''shop'' [] 3)
       = [(''bugs'', 6), (''todo'', 6), (''notes'', 4)]"
proof -
  have h: "int (length (Object_entries (loadProject shop_fs ''shop''))) \<le> 3"
    by code_simp
  have e: "map (\<lambda>h. (hit_topic h, score h)) (searchTopicMemories shop_fs ''shop'' [] 3)
       = [(''bugs'', 6), (''todo'', 6), (''notes'', 4)]"
    by code_simp
  from empty_query_matches_every_topic [OF h]
  have "mset (map (\<lambda>h. (hit_topic h, hit_memory h)) (searchTopicMemories shop_fs ''shop'' [] 3))
       = mset (Object_entries (loadProject shop_fs ''shop''))"
    by (elim conjE)
  then show ?thesis using h e by blast
qed

section \<open>Reading and writing properties\<close>

lemma map_of_replace_own:
  "map_of (replace_own k v obj) k' =
     (if k' = k \<and> map_of obj k \<noteq> None then Some v else map_of obj k')"
  by (induction obj) auto

lemma map_of_insert_index:
  "map_of obj k = None \<Longrightarrow>
   map_of (insert_index k v obj) k' = (if k' = k then Some v else map_of obj k')"
  by (induction obj) (auto split: if_splits)

lemma map_of_append_new:
  "map_of obj k = None \<Longrightarrow>
   map_of (obj @ [(k, v)]) k' = (if k' = k then Some v else map_of obj k')"
  by (induction obj) auto

lemma map_of_js_set:
  "k \<noteq> ''__proto__'' \<or> map_of obj k \<noteq> None \<Longrightarrow>
   map_of (js_set obj k v) k' = (if k' = k then Some v else map_of obj k')"
  unfolding js_set_def
  by (auto simp: map_of_replace_own map_of_insert_index map_of_append_new
      simp del: map_of_append)

lemma js_set_proto: "map_of obj ''__proto__'' = None \<Longrightarrow> js_set obj ''__proto__'' v = obj"
  by (simp add: js_set_def)

lemma js_get_Own: "(js_get obj k = Own v) = (map_of obj k = Some v)"
  by (auto simp: js_get_def split: option.splits)

lemma js_get_Undefined:
  "(js_get obj k = Undefined) = (map_of obj k = None \<and> k \<notin> set Object_prototype_keys)"
  by (auto simp: js_get_def split: option.splits)

lemma truthy_js_get:
  "truthy (js_get obj k) = (map_of obj k \<noteq> None \<or> k \<in> set Object_prototype_keys)"
  by (auto simp: js_get_def split: option.splits)

lemma js_get_js_set:
  "k \<noteq> ''__proto__'' \<or> map_of obj k \<noteq> None \<Longrightarrow>
   js_get (js_set obj k v) k' = (if k' = k then Own v else js_get obj k')"
  by (simp add: js_get_def map_of_js_set)

lemma proto_is_inherited: "''__proto__'' \<in> set Object_prototype_keys"
  by (simp add: Object_prototype_keys_def)

section \<open>Fixed topics\<close>

lemma fixed_topics_not_inherited:
  "t \<in> set FIXED_TOPICS \<Longrightarrow> t \<notin> set Object_prototype_keys"
  by (auto simp: FIXED_TOPICS_def Object_prototype_keys_def)

lemma map_of_init_loop:
  "\<forall>t \<in> set ts. t \<notin> set Object_prototype_keys \<Longrightarrow>
   map_of (init_loop now ts topics) k =
     (case map_of topics k of
        Some m \<Rightarrow> Some m
      | None \<Rightarrow> if k \<in> set ts then Some (placeholder now k) else None)"
proof (induction ts arbitrary: topics)
  case Nil
  then show ?case by (simp split: option.splits)
next
  case (Cons t ts)
  then have t: "t \<notin> set Object_prototype_keys" and ts: "\<forall>t \<in> set ts. t \<notin> set Object_prototype_keys"
    by simp_all
  have np: "t \<noteq> ''__proto__''" using t proto_is_inherited by auto
  show ?case
  proof (cases "map_of topics t")
    case None
    then show ?thesis using Cons.IH [OF ts] t np
      by (auto simp: truthy_js_get map_of_js_set split: option.splits)
  next
    case (Some m)
    then show ?thesis using Cons.IH [OF ts] t
      by (auto simp: truthy_js_get split: option.splits)
  qed
qed

lemma init_loop_nothing_to_do:
  "\<forall>t \<in> set ts. map_of topics t \<noteq> None \<Longrightarrow> init_loop now ts topics = topics"
  by (induction ts arbitrary: topics) (auto simp: truthy_js_get)

lemma init_loop_idempotent:
  "\<forall>t \<in> set ts. t \<notin> set Object_prototype_keys \<Longrightarrow>
   init_loop now' ts (init_loop now ts topics) = init_loop now ts topics"
  by (rule init_loop_nothing_to_do) (auto simp: map_of_init_loop split: option.splits)

lemma loadProject_saved: "loadProject (fs(p \<mapsto> Document d)) p = d"
  by (simp add: loadProject_def)

text \<open>
  C8. \<^verbatim>\<open>initializeFixedTopics\<close>. A call that returns leaves every topic that was in the
  document as it was (content, tags, importance and both time stamps), whoever wrote
  it, and gives every fixed topic name that was absent the placeholder with tags
  \<open>fixed-topic\<close> and the name, importance 5 and the time of the call. A second call, at
  any later time, writes the same document again.
\<close>

theorem initializeFixedTopics_idempotent:
  assumes "initializeFixedTopics True now fs p = Returned fs'"
  shows "(\<forall>t m. getTopicMemory fs p t = Own m \<longrightarrow> getTopicMemory fs' p t = Own m)
       \<and> (\<forall>t \<in> set FIXED_TOPICS. getTopicMemory fs p t = Undefined \<longrightarrow>
             getTopicMemory fs' p t = Own (placeholder now t)
             \<and> tags (placeholder now t) = [''fixed-topic'', t]
             \<and> importance (placeholder now t) = 5
             \<and> timestamp (placeholder now t) = now)
       \<and> (\<forall>t. t \<notin> set FIXED_TOPICS \<longrightarrow> getTopicMemory fs' p t = getTopicMemory fs p t)
       \<and> length FIXED_TOPICS = 10
       \<and> initializeFixedTopics True now' fs' p = Returned fs'"
proof -
  let ?d = "loadProject fs p"
  let ?d' = "init_loop now FIXED_TOPICS ?d"
  have fs': "fs' = fs(p \<mapsto> Document ?d')"
    using assms by (simp add: initializeFixedTopics_def saveProject_def)
  have ld: "loadProject fs' p = ?d'" by (simp add: fs' loadProject_saved)
  have ni: "\<forall>t \<in> set FIXED_TOPICS. t \<notin> set Object_prototype_keys"
    using fixed_topics_not_inherited by blast
  note mo = map_of_init_loop [OF ni]
  have a: "\<forall>t m. getTopicMemory fs p t = Own m \<longrightarrow> getTopicMemory fs' p t = Own m"
    by (simp add: getTopicMemory_def ld js_get_Own mo)
  have b: "\<forall>t \<in> set FIXED_TOPICS. getTopicMemory fs p t = Undefined \<longrightarrow>
             getTopicMemory fs' p t = Own (placeholder now t)
             \<and> tags (placeholder now t) = [''fixed-topic'', t]
             \<and> importance (placeholder now t) = 5
             \<and> timestamp (placeholder now t) = now"
    by (simp add: getTopicMemory_def ld js_get_Own js_get_Undefined mo placeholder_def)
  have c: "\<forall>t. t \<notin> set FIXED_TOPICS \<longrightarrow> getTopicMemory fs' p t = getTopicMemory fs p t"
    by (simp add: getTopicMemory_def ld js_get_def mo split: option.splits)
  have d: "length FIXED_TOPICS = 10" by (simp add: FIXED_TOPICS_def)
  have "init_loop now' FIXED_TOPICS ?d' = ?d'" by (rule init_loop_idempotent [OF ni])
  then have e: "initializeFixedTopics True now' fs' p = Returned fs'"
    by (simp add: initializeFixedTopics_def saveProject_def ld) (simp add: fs')
  show ?thesis using a b c d e by blast
qed

theorem initializeFixedTopics_idempotent_witness:
  "initializeFixedTopics True 5000 shop_fs ''shop'' = Returned shop_initialized
   \<and> getTopicMemory shop_initialized ''shop'' ''todo''
       = Own \<lparr>content = ''call the bank'', tags = [''cpf'', ''later''], importance = 4,
              timestamp = 1200, lastModified = 1300\<rparr>
   \<and> getTopicMemory shop_initialized ''shop'' ''summary'' = Own (placeholder 5000 ''summary'')
   \<and> initializeFixedTopics True 9000 shop_initialized ''shop'' = Returned shop_initialized"
proof -
  have h: "initializeFixedTopics True 5000 shop_fs ''shop'' = Returned shop_initialized"
    by (simp add: initializeFixedTopics_def saveProject_def loadProject_def shop_fs_def
        shop_initialized_def)
  note inst = initializeFixedTopics_idempotent [OF h, of 9000]
  have todo: "getTopicMemory shop_fs ''shop'' ''todo''
       = Own \<lparr>content = ''call the bank'', tags = [''cpf'', ''later''], importance = 4,
              timestamp = 1200, lastModified = 1300\<rparr>"
    by code_simp
  have summary: "getTopicMemory shop_fs ''shop'' ''summary'' = Undefined"
    by code_simp
  have fixed: "''summary'' \<in> set FIXED_TOPICS"
    by (simp add: FIXED_TOPICS_def)
  from inst todo have a: "getTopicMemory shop_initialized ''shop'' ''todo''
       = Own \<lparr>content = ''call the bank'', tags = [''cpf'', ''later''], importance = 4,
              timestamp = 1200, lastModified = 1300\<rparr>"
    by blast
  from inst summary fixed
  have b: "getTopicMemory shop_initialized ''shop'' ''summary'' = Own (placeholder 5000 ''summary'')"
    by blast
  from inst have c: "initializeFixedTopics True 9000 shop_initialized ''shop'' = Returned shop_initialized"
    by (elim conjE)
  show ?thesis using h a b c by blast
qed

section \<open>Store, get and update of a topic\<close>

lemma clamp_importance_range: "1 \<le> clamp_importance i \<and> clamp_importance i \<le> 10"
  by (simp add: clamp_importance_def)

lemma clamp_importance_examples: "clamp_importance 0 = 1 \<and> clamp_importance 15 = 10"
  by (simp add: clamp_importance_def)

lemma store_then_get_topic:
  assumes "topic \<noteq> ''__proto__''"
    and "storeTopicMemory True now fs p topic c tgs imp = Returned fs'"
  shows "getTopicMemory fs' p topic =
           Own \<lparr>content = c, tags = tgs, importance = max 1 (min 10 imp),
                timestamp = timestamp_or (getTopicMemory fs p topic) now, lastModified = now\<rparr>"
proof -
  have "fs' = fs(p \<mapsto> Document (store_topic now (loadProject fs p) topic c tgs imp))"
    using assms(2) by (simp add: storeTopicMemory_def saveProject_def)
  then show ?thesis using assms(1)
    by (simp add: getTopicMemory_def loadProject_saved store_topic_def js_get_js_set
        clamp_importance_def)
qed

lemma store_then_get_memory:
  assumes "storeMemory True new_id now c tgs imp s = (r, s')"
  shows "\<exists>m. r = Returned m \<and> fst (getMemory new_id s') = Some m
           \<and> fst (getMemory new_id (evict new_id s')) = Some m
           \<and> mem_content m = c \<and> mem_tags m = tgs \<and> mem_importance m = max 1 (min 10 imp)"
  using assms
  by (auto simp: storeMemory_def persistMemory_def getMemory_def evict_def Let_def
      update_conv')

text \<open>
  C2. Store followed by get. For every topic name but \<^verbatim>\<open>__proto__\<close> the round trip holds
  (\<open>store_then_get_topic\<close>, and \<open>store_then_get_memory\<close> for the memory store). For
  \<^verbatim>\<open>__proto__\<close> the assignment \<^verbatim>\<open>topics[topic] = {...}\<close> sets the prototype of the
  document object: the written file is \<^verbatim>\<open>{}\<close>, and the following get returns
  \<^verbatim>\<open>Object.prototype\<close>, an object without content, tags or importance.
\<close>

theorem store_then_get_proto_loses_topic:
  "storeTopicMemory True 1000 no_files ''shop'' ''__proto__'' ''prototype notes'' [''js''] 5
     = Returned (no_files(''shop'' \<mapsto> Document []))
   \<and> getTopicMemory (no_files(''shop'' \<mapsto> Document [])) ''shop'' ''__proto__'' = Inherited"
  by (simp add: storeTopicMemory_def saveProject_def loadProject_def no_files_def
      store_topic_def js_set_def getTopicMemory_def js_get_def Object_prototype_keys_def)

lemma update_existing_topic:
  assumes "map_of (loadProject fs p) topic = Some existing"
  shows "updateTopicMemory writable now fs p topic c tgs imp \<noteq> Threw NotFound
       \<and> (\<forall>fs'. updateTopicMemory writable now fs p topic c tgs imp = Returned fs' \<longrightarrow>
             getTopicMemory fs' p topic =
               Own \<lparr>content = (case c of Some c' \<Rightarrow> c' | None \<Rightarrow> content existing),
                    tags = (case tgs of Some t' \<Rightarrow> t' | None \<Rightarrow> tags existing),
                    importance = (case imp of Some i \<Rightarrow> max 1 (min 10 i)
                                   | None \<Rightarrow> importance existing),
                    timestamp = timestamp existing,
                    lastModified = now\<rparr>)
       \<and> updateTopicMemory True now fs p topic c tgs imp \<noteq> Threw SaveFailed"
proof -
  let ?new = "\<lparr>content = (case c of Some c' \<Rightarrow> c' | None \<Rightarrow> content existing),
                    tags = (case tgs of Some t' \<Rightarrow> t' | None \<Rightarrow> tags existing),
                    importance = (case imp of Some i \<Rightarrow> clamp_importance i
                                   | None \<Rightarrow> importance existing),
                    timestamp = timestamp existing,
                    lastModified = now\<rparr>"
  have own: "js_get (loadProject fs p) topic = Own existing"
    using assms by (simp add: js_get_Own)
  have eq: "updateTopicMemory w now fs p topic c tgs imp
      = saveProject w fs p (js_set (loadProject fs p) topic ?new)" for w
    by (simp add: updateTopicMemory_def own)
  have got: "js_get (js_set (loadProject fs p) topic ?new) topic = Own ?new"
    using assms by (simp add: js_get_js_set)
  have cl: "(case imp of Some i \<Rightarrow> clamp_importance i | None \<Rightarrow> importance existing)
      = (case imp of Some i \<Rightarrow> max 1 (min 10 i) | None \<Rightarrow> importance existing)"
    by (simp add: clamp_importance_def split: option.splits)
  show ?thesis
    using got cl
    by (auto simp: eq saveProject_def getTopicMemory_def loadProject_saved split: if_splits)
qed

lemma update_missing_topic:
  assumes "map_of (loadProject fs p) topic = None" and "topic \<notin> set Object_prototype_keys"
  shows "updateTopicMemory writable now fs p topic c tgs imp = Threw NotFound"
  using assms by (simp add: updateTopicMemory_def Let_def js_get_def)

text \<open>
  C4. Update of a missing topic. For names that \<^verbatim>\<open>Object.prototype\<close> does not define,
  the update throws \<open>NotFound\<close> exactly when the topic is not in the document, and
  otherwise keeps the fields that are not given and the time stamp
  (\<open>update_missing_topic\<close>, \<open>update_existing_topic\<close>). For a name that it does define,
  \<^verbatim>\<open>topics[topic]\<close> is the inherited function, \<^verbatim>\<open>!existing\<close> is false, and the update
  of a topic that is not in the document returns normally after writing an object without
  tags, importance and timestamp.
\<close>

theorem update_inherited_name_not_rejected:
  "map_of (loadProject shop_fs ''shop'') ''constructor'' = None
   \<and> updateTopicMemory True 2000 shop_fs ''shop'' ''constructor'' (Some ''x'') None None
       = Wrote_untyped"
  by (simp add: updateTopicMemory_def loadProject_def shop_fs_def shop_topics_def js_get_def
      Object_prototype_keys_def)

lemma store_keeps_nonzero_timestamp:
  assumes "map_of (loadProject fs p) topic = Some existing" and "timestamp existing \<noteq> 0"
    and "storeTopicMemory True now fs p topic c tgs imp = Returned fs'"
  shows "getTopicMemory fs' p topic =
           Own \<lparr>content = c, tags = tgs, importance = max 1 (min 10 imp),
                timestamp = timestamp existing, lastModified = now\<rparr>"
proof -
  have fs': "fs' = fs(p \<mapsto> Document (store_topic now (loadProject fs p) topic c tgs imp))"
    using assms(3) by (simp add: storeTopicMemory_def saveProject_def)
  have own: "js_get (loadProject fs p) topic = Own existing"
    using assms(1) by (simp add: js_get_Own)
  have "js_get (store_topic now (loadProject fs p) topic c tgs imp) topic
      = Own \<lparr>content = c, tags = tgs, importance = clamp_importance imp,
             timestamp = timestamp existing, lastModified = now\<rparr>"
    using assms(1,2) by (simp add: store_topic_def js_get_js_set own timestamp_or_def)
  then show ?thesis
    by (simp add: getTopicMemory_def fs' loadProject_saved clamp_importance_def)
qed

text \<open>
  C5. Store on an existing topic. A time stamp other than \<open>0\<close> is kept
  (\<open>store_keeps_nonzero_timestamp\<close>). \<^verbatim>\<open>topics[topic]?.timestamp || now\<close> takes \<open>0\<close> for
  a missing value: the topic below exists with time stamp \<open>0\<close>, and after the store its
  time stamp is the time of the call.
\<close>

theorem store_replaces_zero_timestamp:
  "getTopicMemory epoch_fs ''shop'' ''bugs''
     = Own \<lparr>content = ''old text'', tags = [''checkout''], importance = 3,
            timestamp = 0, lastModified = 0\<rparr>
   \<and> storeTopicMemory True 5000 epoch_fs ''shop'' ''bugs'' ''new text'' [''checkout''] 3
     = Returned (epoch_fs(''shop'' \<mapsto> Document
         [(''bugs'', \<lparr>content = ''new text'', tags = [''checkout''], importance = 3,
                      timestamp = 5000, lastModified = 5000\<rparr>)]))"
  by (simp add: getTopicMemory_def storeTopicMemory_def saveProject_def loadProject_def
      epoch_fs_def store_topic_def js_set_def js_get_def timestamp_or_def
      clamp_importance_def)

section \<open>Array indices\<close>

lemma decimal_value_snoc:
  "decimal_value acc (s @ [c]) = 10 * decimal_value acc s + (of_char c - 48)"
  by (induction s arbitrary: acc) auto

lemma of_char_zero: "(of_char (CHR ''0'') :: int) = 48"
  by simp

lemma digit_zero:
  assumes "(of_char c :: int) - 48 = 0"
  shows "c = CHR ''0''"
proof -
  have "(of_char c :: int) = of_char (CHR ''0'')"
    using assms by (simp only: of_char_zero)
  then show ?thesis by (simp only: of_char_eq_iff)
qed

lemma digit_inj:
  assumes "(of_char c :: int) - 48 = of_char e - 48"
  shows "c = e"
proof -
  have "(of_char c :: int) = of_char e" using assms by arith
  then show ?thesis by (simp only: of_char_eq_iff)
qed

lemma digit_range:
  assumes "is_digit c"
  shows "0 \<le> (of_char c :: int) - 48 \<and> (of_char c :: int) - 48 \<le> 9"
proof -
  define n where "n = (of_char c :: nat)"
  have "48 \<le> n \<and> n \<le> 57" using assms by (simp add: n_def is_digit_def Let_def)
  then have "0 \<le> int n - 48 \<and> int n - 48 \<le> 9" by arith
  moreover have "int n = (of_char c :: int)" unfolding n_def by (rule of_nat_of_char)
  ultimately show ?thesis by simp
qed

lemma no_leading_zero_butlast: "no_leading_zero (t @ [c]) \<Longrightarrow> no_leading_zero t"
  by (cases t) (auto simp: no_leading_zero_def)

lemma no_leading_zero_last: "no_leading_zero (t @ [c]) \<Longrightarrow> is_digit c"
  by (auto simp: no_leading_zero_def)

lemma no_leading_zero_positive:
  "no_leading_zero s \<Longrightarrow> s \<noteq> [] \<Longrightarrow> 0 < decimal_value 0 s"
proof (induction s rule: rev_induct)
  case Nil
  then show ?case by simp
next
  case (snoc c t)
  have dc: "0 \<le> (of_char c :: int) - 48"
    using snoc.prems(1) no_leading_zero_last digit_range by blast
  show ?case
  proof (cases "t = []")
    case True
    then have "c \<noteq> CHR ''0''" using snoc.prems by (auto simp: no_leading_zero_def)
    then have "(of_char c :: int) - 48 \<noteq> 0" using digit_zero by blast
    then have "0 < (of_char c :: int) - 48" using dc by arith
    then show ?thesis using True by simp
  next
    case False
    then have "0 < decimal_value 0 t" using snoc no_leading_zero_butlast by blast
    then show ?thesis using dc by (simp add: decimal_value_snoc)
  qed
qed

lemma no_leading_zero_inj:
  "no_leading_zero a \<Longrightarrow> no_leading_zero b \<Longrightarrow> decimal_value 0 a = decimal_value 0 b \<Longrightarrow> a = b"
proof (induction a arbitrary: b rule: rev_induct)
  case Nil
  then show ?case using no_leading_zero_positive [of b] by (cases "b = []") auto
next
  case (snoc c t)
  have "0 < decimal_value 0 (t @ [c])"
    using snoc.prems(1) no_leading_zero_positive by blast
  then have "b \<noteq> []" using snoc.prems(3) by (cases b) auto
  then obtain u e where b: "b = u @ [e]" by (metis rev_exhaust)
  have dc: "0 \<le> (of_char c :: int) - 48 \<and> (of_char c :: int) - 48 \<le> 9"
    using snoc.prems(1) no_leading_zero_last digit_range by blast
  have de: "0 \<le> (of_char e :: int) - 48 \<and> (of_char e :: int) - 48 \<le> 9"
    using snoc.prems(2) b no_leading_zero_last digit_range by blast
  have eq: "10 * decimal_value 0 t + (of_char c - 48) = 10 * decimal_value 0 u + (of_char e - 48)"
    using snoc.prems(3) b by (simp add: decimal_value_snoc)
  have v: "decimal_value 0 t = decimal_value 0 u" using eq dc de by arith
  have d: "(of_char c :: int) - 48 = of_char e - 48" using eq v by arith
  have "t = u"
    using snoc.IH [of u] snoc.prems(1,2) b v no_leading_zero_butlast by blast
  moreover have "c = e" using d digit_inj by blast
  ultimately show ?case using b by simp
qed

lemma array_index_cases:
  "is_array_index k \<Longrightarrow> k = ''0'' \<or> (no_leading_zero k \<and> k \<noteq> [])"
  by (cases k) (auto simp: is_array_index_def no_leading_zero_def)

lemma index_value_inj:
  assumes "is_array_index a" "is_array_index b" "index_value a = index_value b"
  shows "a = b"
proof -
  have z: "decimal_value 0 ''0'' = 0" by simp
  consider "a = ''0''" "b = ''0''"
    | "a = ''0''" "no_leading_zero b" "b \<noteq> []"
    | "no_leading_zero a" "a \<noteq> []" "b = ''0''"
    | "no_leading_zero a" "no_leading_zero b"
    using array_index_cases [OF assms(1)] array_index_cases [OF assms(2)] by blast
  then show ?thesis
  proof cases
    case 1
    then show ?thesis by simp
  next
    case 2
    then show ?thesis
      using assms(3) no_leading_zero_positive [of b] z by (simp add: index_value_def)
  next
    case 3
    then show ?thesis
      using assms(3) no_leading_zero_positive [of a] z by (simp add: index_value_def)
  next
    case 4
    then show ?thesis using assms(3) no_leading_zero_inj by (simp add: index_value_def)
  qed
qed

section \<open>The order of the topic names\<close>

lemma keys_replace_own: "map fst (replace_own k v obj) = map fst obj"
  by (induction obj) auto

lemma keys_insert_index: "map fst (insert_index k v obj) = insert_key k (map fst obj)"
  by (induction obj) (auto simp: smaller_index_def insert_key_def)

lemma insert_key_Cons:
  "insert_key k (k' # ks) = (if smaller_index k k' then k' # insert_key k ks else k # k' # ks)"
  by (simp add: insert_key_def)

lemma insert_key_Nil: "insert_key k [] = [k]"
  by (simp add: insert_key_def)

lemma set_insert_key: "set (insert_key k ks) = insert k (set ks)"
  by (induction ks) (auto simp: insert_key_Cons insert_key_Nil)

lemma distinct_insert_key:
  "k \<notin> set ks \<Longrightarrow> distinct ks \<Longrightarrow> distinct (insert_key k ks)"
  by (induction ks) (auto simp: insert_key_Cons insert_key_Nil set_insert_key)

lemma filter_insert_key: "\<not> Q k \<Longrightarrow> filter Q (insert_key k ks) = filter Q ks"
  by (induction ks) (auto simp: insert_key_Cons insert_key_Nil)

lemma sorted_insert_key:
  assumes "is_array_index k"
  shows "k \<notin> set ks \<Longrightarrow> sorted_wrt index_before ks \<Longrightarrow>
         sorted_wrt index_before (insert_key k ks)"
proof (induction ks)
  case Nil
  then show ?case by (simp add: insert_key_Nil)
next
  case (Cons k' rest)
  have ne: "k \<noteq> k'" and notin: "k \<notin> set rest"
    using Cons.prems(1) by auto
  have head: "\<forall>y \<in> set rest. index_before k' y"
    and tail: "sorted_wrt index_before rest"
    using Cons.prems(2) by auto
  show ?case
  proof (cases "smaller_index k k'")
    case True
    have "index_before k' k" using True by (simp add: index_before_def smaller_index_def)
    then have "\<forall>y \<in> set (insert_key k rest). index_before k' y"
      using head by (simp add: set_insert_key)
    then show ?thesis
      using True Cons.IH [OF notin tail] by (simp add: insert_key_Cons)
  next
    case False
    have k': "index_before k k'"
    proof (cases "is_array_index k'")
      case True
      then have "index_value k \<le> index_value k'" using False by (simp add: smaller_index_def)
      moreover have "index_value k \<noteq> index_value k'"
        using index_value_inj [OF assms True] ne by blast
      ultimately show ?thesis using assms by (simp add: index_before_def)
    next
      case False
      then show ?thesis by (simp add: index_before_def)
    qed
    have "\<forall>y \<in> set rest. index_before k y"
    proof
      fix y assume y: "y \<in> set rest"
      show "index_before k y"
      proof (cases "is_array_index y")
        case True
        then have i: "is_array_index k'" and l: "index_value k' < index_value y"
          using head y by (auto simp: index_before_def)
        have "index_value k \<le> index_value k'" using False i by (simp add: smaller_index_def)
        then show ?thesis using assms l by (simp add: index_before_def)
      next
        case False
        then show ?thesis by (simp add: index_before_def)
      qed
    qed
    then show ?thesis using False k' Cons.prems(2) by (simp add: insert_key_Cons)
  qed
qed

lemma sorted_append_nonindex:
  "\<not> is_array_index k \<Longrightarrow> sorted_wrt index_before ks \<Longrightarrow> sorted_wrt index_before (ks @ [k])"
  by (simp add: sorted_wrt_append index_before_def)

lemma map_of_None_keys: "(map_of obj k = None) = (k \<notin> set (map fst obj))"
  by (simp add: map_of_eq_None_iff)

lemma keys_js_set:
  "map fst (js_set obj k v) =
     (if k \<in> set (map fst obj) \<or> k = ''__proto__'' then map fst obj
      else if is_array_index k then insert_key k (map fst obj)
      else map fst obj @ [k])"
  by (simp add: js_set_def map_of_None_keys keys_replace_own keys_insert_index)

lemma wf_object_js_set:
  assumes "wf_object obj"
  shows "wf_object (js_set obj k v)"
  using assms
  by (simp add: wf_object_def keys_js_set distinct_insert_key sorted_insert_key
      sorted_append_nonindex)

lemma index_keys_first:
  "sorted_wrt index_before ks \<Longrightarrow>
   ks = filter is_array_index ks @ filter (\<lambda>k. \<not> is_array_index k) ks
   \<and> sorted_wrt (\<lambda>a b. index_value a < index_value b) (filter is_array_index ks)"
proof (induction ks)
  case Nil
  then show ?case by simp
next
  case (Cons a ks)
  then have IH: "ks = filter is_array_index ks @ filter (\<lambda>k. \<not> is_array_index k) ks"
    and IH2: "sorted_wrt (\<lambda>a b. index_value a < index_value b) (filter is_array_index ks)"
    and head: "\<forall>b \<in> set ks. index_before a b"
    by simp_all
  show ?case
  proof (cases "is_array_index a")
    case True
    then show ?thesis using IH IH2 head by (auto simp: index_before_def)
  next
    case False
    then have "\<forall>b \<in> set ks. \<not> is_array_index b" using head by (auto simp: index_before_def)
    then have "filter is_array_index ks = []" and "filter (\<lambda>k. \<not> is_array_index k) ks = ks"
      by (simp_all add: filter_empty_conv filter_id_conv)
    then show ?thesis using False by simp
  qed
qed


lemma first_occurrences_distinct: "distinct ks \<Longrightarrow> first_occurrences ks = ks"
proof -
  assume "distinct ks"
  then have "distinct (rev ks)" by simp
  then have r: "remdups (rev ks) = rev ks" by (rule distinct_remdups_id)
  show ?thesis unfolding first_occurrences_def r by (rule rev_rev_ident)
qed

lemma remdups_later_duplicate: "k \<in> set ys \<Longrightarrow> remdups (xs @ k # ys) = remdups (xs @ ys)"
  by (induction xs) auto

lemma first_occurrences_repeated:
  "k \<in> set xs \<Longrightarrow> first_occurrences (xs @ k # ys) = first_occurrences (xs @ ys)"
proof -
  assume "k \<in> set xs"
  then have "remdups (rev ys @ k # rev xs) = remdups (rev ys @ rev xs)"
    by (simp add: remdups_later_duplicate)
  then show ?thesis by (simp add: first_occurrences_def)
qed

lemma listTopics_after_store:
  "storeTopicMemory True now fs p k c tgs imp = Returned fs' \<Longrightarrow>
   loadProject fs' p = store_topic now (loadProject fs p) k c tgs imp"
  by (auto simp: storeTopicMemory_def saveProject_def loadProject_saved)

lemma keys_store_topic:
  "k \<noteq> ''__proto__'' \<Longrightarrow>
   map fst (store_topic now topics k c tgs imp) =
     (if k \<in> set (map fst topics) then map fst topics
      else if is_array_index k then insert_key k (map fst topics)
      else map fst topics @ [k])"
  by (simp add: store_topic_def keys_js_set)

lemma nonindex_keys_store_topic:
  assumes "k \<noteq> ''__proto__''"
  shows "first_occurrences (filter (\<lambda>k. \<not> is_array_index k)
            (map fst (store_topic now topics k c tgs imp) @ rest))
       = first_occurrences (filter (\<lambda>k. \<not> is_array_index k) (map fst topics @ k # rest))"
proof (cases "k \<in> set (map fst topics)")
  case True
  then have keys: "map fst (store_topic now topics k c tgs imp) = map fst topics"
    using assms by (simp add: keys_store_topic)
  show ?thesis
  proof (cases "is_array_index k")
    case True
    then show ?thesis using keys by simp
  next
    case False
    then have "k \<in> set (filter (\<lambda>k. \<not> is_array_index k) (map fst topics))"
      using True by simp
    then show ?thesis using keys False
      by (simp add: first_occurrences_repeated del: set_filter)
  qed
next
  case False
  then show ?thesis using assms
    by (simp add: keys_store_topic filter_insert_key)
qed

lemma listing_after_order:
  "wf_object (loadProject fs p) \<Longrightarrow> \<forall>c \<in> set calls. call_topic c \<noteq> ''__proto__'' \<Longrightarrow>
   \<exists>L. listing_after fs p calls = Some L
       \<and> set L = set (listTopics fs p) \<union> call_topic ` set calls
       \<and> distinct L \<and> sorted_wrt index_before L
       \<and> filter (\<lambda>k. \<not> is_array_index k) L
           = first_occurrences
               (filter (\<lambda>k. \<not> is_array_index k) (listTopics fs p @ map call_topic calls))"
proof (induction calls arbitrary: fs)
  case Nil
  then show ?case
    by (simp add: listing_after_def listTopics_def Object_keys_def wf_object_def
        first_occurrences_distinct)
next
  case (Cons c cs)
  let ?d = "loadProject fs p"
  let ?d1 = "store_topic (call_time c) ?d (call_topic c) (call_content c) (call_tags c)
               (call_importance c)"
  let ?fs1 = "fs(p \<mapsto> Document ?d1)"
  have np: "call_topic c \<noteq> ''__proto__''" using Cons.prems(2) by simp
  have st: "storeTopicMemory True (call_time c) fs p (call_topic c) (call_content c)
              (call_tags c) (call_importance c) = Returned ?fs1"
    by (simp add: storeTopicMemory_def saveProject_def)
  have ld: "loadProject ?fs1 p = ?d1" by (simp add: loadProject_saved)
  have "wf_object ?d1"
    unfolding store_topic_def using Cons.prems(1) by (rule wf_object_js_set)
  then have wf1: "wf_object (loadProject ?fs1 p)"
    by (simp only: ld)
  have rest: "\<forall>c \<in> set cs. call_topic c \<noteq> ''__proto__''" using Cons.prems(2) by simp
  obtain L where L: "listing_after ?fs1 p cs = Some L"
    and setL: "set L = set (listTopics ?fs1 p) \<union> call_topic ` set cs"
    and dL: "distinct L" and sL: "sorted_wrt index_before L"
    and fL: "filter (\<lambda>k. \<not> is_array_index k) L
           = first_occurrences
               (filter (\<lambda>k. \<not> is_array_index k) (listTopics ?fs1 p @ map call_topic cs))"
    using Cons.IH [OF wf1 rest] by blast
  have same: "listing_after fs p (c # cs) = listing_after ?fs1 p cs"
    by (simp add: listing_after_def st)
  have keys1: "set (listTopics ?fs1 p) = insert (call_topic c) (set (listTopics fs p))"
    using np by (auto simp: listTopics_def Object_keys_def ld keys_store_topic set_insert_key)
  have f1: "first_occurrences
               (filter (\<lambda>k. \<not> is_array_index k) (listTopics ?fs1 p @ map call_topic cs))
          = first_occurrences
               (filter (\<lambda>k. \<not> is_array_index k)
                  (listTopics fs p @ map call_topic (c # cs)))"
    using nonindex_keys_store_topic [OF np, of "call_time c" ?d "call_content c" "call_tags c"
        "call_importance c" "map call_topic cs"]
    by (simp add: listTopics_def Object_keys_def ld)
  have "set L = set (listTopics fs p) \<union> call_topic ` set (c # cs)"
    using setL keys1 by auto
  then show ?case using L same dL sL fL f1 by (metis (no_types, lifting))
qed

text \<open>
  C9. Listing after a sequence of stores. Starting from any document of the runtime, after
  stores that all return and none of which names \<^verbatim>\<open>__proto__\<close>, \<^verbatim>\<open>listTopics\<close> gives every
  name of the document and of the calls once: the names that are array indices first, in
  ascending numeric order, and after them the other names in the order of their first
  insertion.
\<close>

theorem listTopics_enumeration_order:
  assumes "wf_object (loadProject fs p)"
    and "\<forall>c \<in> set calls. call_topic c \<noteq> ''__proto__''"
  shows "\<exists>L. listing_after fs p calls = Some L
       \<and> set L = set (listTopics fs p) \<union> call_topic ` set calls
       \<and> distinct L
       \<and> L = filter is_array_index L @ filter (\<lambda>k. \<not> is_array_index k) L
       \<and> sorted_wrt (\<lambda>a b. index_value a < index_value b) (filter is_array_index L)
       \<and> filter (\<lambda>k. \<not> is_array_index k) L
           = first_occurrences
               (filter (\<lambda>k. \<not> is_array_index k) (listTopics fs p @ map call_topic calls))"
proof -
  obtain L where L: "listing_after fs p calls = Some L"
    and setL: "set L = set (listTopics fs p) \<union> call_topic ` set calls"
    and dL: "distinct L" and sL: "sorted_wrt index_before L"
    and fL: "filter (\<lambda>k. \<not> is_array_index k) L
           = first_occurrences
               (filter (\<lambda>k. \<not> is_array_index k) (listTopics fs p @ map call_topic calls))"
    using listing_after_order [OF assms] by blast
  note ik = index_keys_first [OF sL]
  show ?thesis using L setL dL fL ik by blast
qed

theorem listTopics_enumeration_order_witness:
  "wf_object (loadProject no_files ''shop'')
   \<and> list_all (\<lambda>c. call_topic c \<noteq> ''__proto__'') five_stores
   \<and> listing_after no_files ''shop'' five_stores = Some [''7'', ''10'', ''roadmap'', ''notes'']
   \<and> first_occurrences (filter (\<lambda>k. \<not> is_array_index k)
         (listTopics no_files ''shop'' @ map call_topic five_stores)) = [''roadmap'', ''notes'']"
proof -
  have h1: "wf_object (loadProject no_files ''shop'')"
    by (simp add: wf_object_def loadProject_def no_files_def)
  have h2: "list_all (\<lambda>c. call_topic c \<noteq> ''__proto__'') five_stores"
    by (simp add: five_stores_def)
  then have h2': "\<forall>c \<in> set five_stores. call_topic c \<noteq> ''__proto__''"
    by (simp add: list_all_iff)
  have e: "listing_after no_files ''shop'' five_stores = Some [''7'', ''10'', ''roadmap'', ''notes'']"
    by code_simp
  obtain L where L: "listing_after no_files ''shop'' five_stores = Some L"
    and fL: "filter (\<lambda>k. \<not> is_array_index k) L
           = first_occurrences
               (filter (\<lambda>k. \<not> is_array_index k)
                  (listTopics no_files ''shop'' @ map call_topic five_stores))"
    using listTopics_enumeration_order [OF h1 h2'] by blast
  have "L = [''7'', ''10'', ''roadmap'', ''notes'']" using L e by simp
  moreover have "filter (\<lambda>k. \<not> is_array_index k) [''7'', ''10'', ''roadmap'', ''notes'']
      = [''roadmap'', ''notes'']"
    by code_simp
  ultimately have "first_occurrences (filter (\<lambda>k. \<not> is_array_index k)
         (listTopics no_files ''shop'' @ map call_topic five_stores)) = [''roadmap'', ''notes'']"
    using fL by simp
  then show ?thesis using h1 h2 e by blast
qed

theorem listTopics_not_insertion_order:
  "listing_after no_files ''shop'' two_stores = Some [''2024'', ''roadmap'']
   \<and> first_occurrences (map call_topic two_stores) = [''roadmap'', ''2024'']"
  by code_simp

section \<open>Cleaning up old memories\<close>

lemma deleteMemory_removable:
  "deleteMemory True k s = (True, s\<lparr>cache := (cache s)(k := None), disk := AList.delete k (disk s)\<rparr>)"
proof (cases "map_of (disk s) k")
  case None
  then have "k \<notin> fst ` set (disk s)" by (simp add: map_of_eq_None_iff)
  then have "AList.delete k (disk s) = disk s" by simp
  then show ?thesis using None by (simp add: deleteMemory_def Let_def)
next
  case (Some f)
  then show ?thesis by (simp add: deleteMemory_def Let_def)
qed

lemma cleanup_loop_count:
  "\<forall>k. removable k \<Longrightarrow>
   fst (cleanup_loop removable cutoff ms n s) =
     n + length (filter (\<lambda>m. mem_timestamp m < cutoff \<and> mem_importance m < 5) ms)"
  by (induction ms arbitrary: n s) (auto simp: deleteMemory_removable)

lemma cleanup_loop_disk:
  "\<forall>k. removable k \<Longrightarrow>
   disk (snd (cleanup_loop removable cutoff ms n s)) =
     filter (\<lambda>(k, f). k \<notin> mem_id `
               set (filter (\<lambda>m. mem_timestamp m < cutoff \<and> mem_importance m < 5) ms))
       (disk s)"
proof (induction ms arbitrary: n s)
  case Nil
  then show ?case by simp
next
  case (Cons m ms)
  show ?case
  proof (cases "mem_timestamp m < cutoff \<and> mem_importance m < 5")
    case True
    then show ?thesis using Cons
      by (auto simp: deleteMemory_removable AList.delete_eq intro!: filter_cong)
  next
    case False
    then show ?thesis using Cons by auto
  qed
qed

lemma cleanup_loop_cache:
  "\<forall>k. removable k \<Longrightarrow>
   cache (snd (cleanup_loop removable cutoff ms n s)) k =
     (if k \<in> mem_id ` set (filter (\<lambda>m. mem_timestamp m < cutoff \<and> mem_importance m < 5) ms)
      then None else cache s k)"
  by (induction ms arbitrary: n s) (auto simp: deleteMemory_removable)

lemma in_file_memories: "(m \<in> set (file_memories files)) = (\<exists>k. (k, Stored m) \<in> set files)"
  by (induction files rule: file_memories.induct) auto

lemma file_memories_filter:
  assumes "\<And>k m. (k, Stored m) \<in> set files \<Longrightarrow> (k \<in> S) = P m"
  shows "file_memories (filter (\<lambda>(k, f). k \<notin> S) files)
           = filter (\<lambda>m. \<not> P m) (file_memories files)"
  using assms
proof (induction files rule: file_memories.induct)
  case 1
  then show ?case by simp
next
  case (2 k m files)
  have "(k \<in> S) = P m" using "2.prems" by simp
  moreover have "file_memories (filter (\<lambda>(k, f). k \<notin> S) files)
           = filter (\<lambda>m. \<not> P m) (file_memories files)"
    using "2.IH" "2.prems" by simp
  ultimately show ?case by simp
next
  case (3 k files)
  have "file_memories (filter (\<lambda>(k, f). k \<notin> S) files)
           = filter (\<lambda>m. \<not> P m) (file_memories files)"
    using "3.IH" "3.prems" by simp
  then show ?case by simp
qed

lemma removed_key_absent: "k \<in> S \<Longrightarrow> map_of (filter (\<lambda>(k, f). k \<notin> S) files) k = None"
  by (induction files) auto

lemma own_files_id: "own_files files \<Longrightarrow> (k, Stored m) \<in> set files \<Longrightarrow> mem_id m = k"
  by (auto simp: own_files_def list_all_iff)

lemma own_files_functional:
  "own_files files \<Longrightarrow> (k, f) \<in> set files \<Longrightarrow> (k, g) \<in> set files \<Longrightarrow> f = g"
  by (auto simp: own_files_def dest: eq_key_imp_eq_value)

lemma own_files_expired_ids:
  assumes "own_files files" and "(k, Stored m) \<in> set files"
  shows "(k \<in> mem_id ` set (filter P (file_memories files))) = P m"
proof
  assume "k \<in> mem_id ` set (filter P (file_memories files))"
  then obtain m' where m': "m' \<in> set (file_memories files)" "P m'" "mem_id m' = k" by auto
  then obtain k' where "(k', Stored m') \<in> set files" using in_file_memories by blast
  then have "(k, Stored m') \<in> set files" using own_files_id [OF assms(1)] m'(3) by blast
  then have "Stored m' = Stored m" using own_files_functional [OF assms(1)] assms(2) by blast
  then show "P m" using m'(2) by simp
next
  assume "P m"
  moreover have "m \<in> set (file_memories files)" using assms(2) in_file_memories by blast
  moreover have "mem_id m = k" using own_files_id [OF assms] .
  ultimately show "k \<in> mem_id ` set (filter P (file_memories files))" by force
qed

text \<open>
  C7. \<^verbatim>\<open>cleanupOldMemories\<close>. On a directory of the store's own files that can be listed
  and whose files can be removed, the call removes exactly the memories older than
  \<open>now - maxAge\<close> with importance below 5 and returns how many they were: what is left
  on disk are the other memories, in their order; a removed memory is in neither the
  cache nor the directory; a memory of importance 5 or more stays, whatever its age.
\<close>

theorem cleanupOldMemories_removes_expired:
  assumes "own_files (disk s)" and "\<forall>k. removable k"
  shows "fst (cleanupOldMemories True removable now maxAge s)
           = length (filter (expired now maxAge) (file_memories (disk s)))
       \<and> file_memories (disk (snd (cleanupOldMemories True removable now maxAge s)))
           = filter (\<lambda>m. \<not> expired now maxAge m) (file_memories (disk s))
       \<and> (\<forall>m \<in> set (file_memories (disk s)). expired now maxAge m \<longrightarrow>
             fst (getMemory (mem_id m) (snd (cleanupOldMemories True removable now maxAge s)))
               = None)
       \<and> (\<forall>m \<in> set (file_memories (disk s)). 5 \<le> mem_importance m \<longrightarrow>
             m \<in> set (file_memories
                        (disk (snd (cleanupOldMemories True removable now maxAge s)))))"
proof -
  let ?P = "\<lambda>m. mem_timestamp m < now - maxAge \<and> mem_importance m < 5"
  let ?ms = "file_memories (disk s)"
  let ?S = "mem_id ` set (filter ?P ?ms)"
  let ?r = "cleanupOldMemories True removable now maxAge s"
  have P: "expired now maxAge = ?P" by (rule ext) (simp add: expired_def)
  have r: "?r = cleanup_loop removable (now - maxAge) ?ms 0 s"
    by (simp add: cleanupOldMemories_def loadAllMemories_def)
  have count: "fst ?r = length (filter ?P ?ms)"
    using cleanup_loop_count [OF assms(2)] by (simp add: r)
  have d: "disk (snd ?r) = filter (\<lambda>(k, f). k \<notin> ?S) (disk s)"
    using cleanup_loop_disk [OF assms(2)] by (simp add: r)
  have c: "cache (snd ?r) k = (if k \<in> ?S then None else cache s k)" for k
    using cleanup_loop_cache [OF assms(2)] by (simp add: r)
  have "file_memories (filter (\<lambda>(k, f). k \<notin> ?S) (disk s)) = filter (\<lambda>m. \<not> ?P m) ?ms"
    by (rule file_memories_filter) (rule own_files_expired_ids [OF assms(1)])
  then have left: "file_memories (disk (snd ?r)) = filter (\<lambda>m. \<not> ?P m) ?ms"
    by (simp only: d)
  have gone: "fst (getMemory (mem_id m) (snd ?r)) = None" if "m \<in> set ?ms" "?P m" for m
  proof -
    have inS: "mem_id m \<in> ?S" using that by simp
    then have "cache (snd ?r) (mem_id m) = None" by (simp only: c if_True)
    moreover have "map_of (disk (snd ?r)) (mem_id m) = None"
      unfolding d using inS by (rule removed_key_absent)
    ultimately show ?thesis by (simp add: getMemory_def)
  qed
  have kept: "m \<in> set (file_memories (disk (snd ?r)))"
    if "m \<in> set ?ms" "5 \<le> mem_importance m" for m
    using that by (simp add: left)
  show ?thesis
    unfolding P
  proof (intro conjI ballI impI)
    show "fst ?r = length (filter ?P ?ms)" by (rule count)
    show "file_memories (disk (snd ?r)) = filter (\<lambda>m. \<not> ?P m) ?ms" by (rule left)
    show "fst (getMemory (mem_id m) (snd ?r)) = None" if "m \<in> set ?ms" "?P m" for m
      using that by (rule gone)
    show "m \<in> set (file_memories (disk (snd ?r)))"
      if "m \<in> set ?ms" "5 \<le> mem_importance m" for m
      using that by (rule kept)
  qed
qed

theorem cleanupOldMemories_removes_expired_witness:
  "own_files (disk aged_store)
   \<and> fst (cleanupOldMemories True always_removable (100 * day) (30 * day) aged_store) = 1
   \<and> map mem_id (file_memories
         (disk (snd (cleanupOldMemories True always_removable (100 * day) (30 * day) aged_store))))
       = [''mem-b'', ''mem-d'']"
proof -
  have h1: "own_files (disk aged_store)"
    by (simp add: own_files_def aged_store_def)
  have h2: "\<forall>k. always_removable k"
    by (simp add: always_removable_def)
  note inst = cleanupOldMemories_removes_expired [OF h1 h2, of "100 * day" "30 * day"]
  have e1: "length (filter (expired (100 * day) (30 * day)) (file_memories (disk aged_store))) = 1"
    by code_simp
  have e2: "map mem_id (filter (\<lambda>m. \<not> expired (100 * day) (30 * day) m)
              (file_memories (disk aged_store))) = [''mem-b'', ''mem-d'']"
    by code_simp
  from inst have a: "fst (cleanupOldMemories True always_removable (100 * day) (30 * day) aged_store)
      = length (filter (expired (100 * day) (30 * day)) (file_memories (disk aged_store)))"
    by (elim conjE)
  from inst have b: "file_memories
         (disk (snd (cleanupOldMemories True always_removable (100 * day) (30 * day) aged_store)))
      = filter (\<lambda>m. \<not> expired (100 * day) (30 * day) m) (file_memories (disk aged_store))"
    by (elim conjE)
  show ?thesis using h1 a b e1 e2 by simp
qed

section \<open>The cache and the disk\<close>

lemma own_files_update:
  "own_files files \<Longrightarrow> mem_id m = k \<Longrightarrow> own_files (AList.update k (Stored m) files)"
proof (induction files)
  case Nil
  then show ?case by (simp add: own_files_def)
next
  case (Cons p files)
  obtain k' f where p: "p = (k', f)" by (cases p)
  have tail: "own_files files" using Cons.prems(1) by (simp add: own_files_def)
  have "distinct (map fst (p # files))"
    using Cons.prems(1) by (simp add: own_files_def)
  then have d: "distinct (map fst (AList.update k (Stored m) (p # files)))"
    by (rule distinct_update)
  have "list_all (\<lambda>(k, f). case f of Stored m \<Rightarrow> mem_id m = k | Garbled \<Rightarrow> True)
          (AList.update k (Stored m) files)"
    using Cons.IH [OF tail Cons.prems(2)] by (simp add: own_files_def)
  then have "list_all (\<lambda>(k, f). case f of Stored m \<Rightarrow> mem_id m = k | Garbled \<Rightarrow> True)
          (AList.update k (Stored m) (p # files))"
    using Cons.prems p by (auto simp: own_files_def)
  then show ?case using d by (simp add: own_files_def)
qed

lemma own_files_delete:
  assumes "own_files files"
  shows "own_files (AList.delete k files)"
proof -
  have "distinct (map fst files)" using assms by (simp add: own_files_def)
  then have "distinct (map fst (AList.delete k files))" by (rule distinct_delete)
  moreover have "list_all (\<lambda>(k, f). case f of Stored m \<Rightarrow> mem_id m = k | Garbled \<Rightarrow> True)
      (AList.delete k files)"
    using assms by (auto simp: own_files_def AList.delete_eq list_all_iff)
  ultimately show ?thesis by (simp add: own_files_def)
qed

lemma coherent_id:
  assumes "coherent s" and "own_files (disk s)" and "cache s k = Some m"
  shows "mem_id m = k"
proof -
  have "map_of (disk s) k = Some (Stored m)" using assms(1,3) by (simp add: coherent_def)
  then have "(k, Stored m) \<in> set (disk s)" by (rule map_of_SomeD)
  then show ?thesis using assms(2) by (auto simp: own_files_def list_all_iff)
qed

lemma getMemory_keeps:
  assumes "coherent s" and "own_files (disk s)"
  shows "coherent (snd (getMemory k s)) \<and> own_files (disk (snd (getMemory k s)))
       \<and> (\<forall>m. fst (getMemory k s) = Some m \<longrightarrow> cache (snd (getMemory k s)) k = Some m)"
  using assms
  by (auto simp: getMemory_def coherent_def split: option.splits memory_file.splits)

lemma storeMemory_keeps:
  assumes "coherent s" and "own_files (disk s)"
  shows "coherent (snd (storeMemory True new_id now c tgs imp s))
       \<and> own_files (disk (snd (storeMemory True new_id now c tgs imp s)))"
  using assms
  by (auto simp: storeMemory_def persistMemory_def Let_def coherent_def update_conv'
      own_files_update)

lemma deleteMemory_keeps:
  assumes "coherent s" and "own_files (disk s)"
  shows "coherent (snd (deleteMemory removable k s))
       \<and> own_files (disk (snd (deleteMemory removable k s)))"
  using assms
  by (auto simp: deleteMemory_def Let_def coherent_def delete_conv' own_files_delete)

lemma evict_keeps:
  assumes "coherent s" and "own_files (disk s)"
  shows "coherent (evict k s) \<and> own_files (disk (evict k s))"
  using assms by (auto simp: evict_def coherent_def)

lemma updateMemory_keeps:
  assumes "coherent s" and "own_files (disk s)"
  shows "coherent (snd (updateMemory True k c tgs imp s))
       \<and> own_files (disk (snd (updateMemory True k c tgs imp s)))"
proof (cases "fst (getMemory k s)")
  case None
  then have "snd (updateMemory True k c tgs imp s) = snd (getMemory k s)"
    by (cases "getMemory k s") (simp add: updateMemory_def)
  then show ?thesis using getMemory_keeps [OF assms] by simp
next
  case (Some m)
  let ?s1 = "snd (getMemory k s)"
  let ?m1 = "case c of Some c' \<Rightarrow> m\<lparr>mem_content := c'\<rparr> | None \<Rightarrow> m"
  let ?m2 = "case tgs of Some t' \<Rightarrow> ?m1\<lparr>mem_tags := t'\<rparr> | None \<Rightarrow> ?m1"
  let ?m3 = "case imp of Some i \<Rightarrow> ?m2\<lparr>mem_importance := max 1 (min 10 i)\<rparr> | None \<Rightarrow> ?m2"
  have s1: "coherent ?s1" "own_files (disk ?s1)" "cache ?s1 k = Some m"
    using getMemory_keeps [OF assms, of k] Some by simp_all
  have idm: "mem_id m = k" using coherent_id [OF s1] .
  have id3: "mem_id ?m3 = k" using idm by (simp split: option.splits)
  have res: "snd (updateMemory True k c tgs imp s)
      = ?s1\<lparr>cache := (cache ?s1)(k \<mapsto> ?m3), disk := AList.update k (Stored ?m3) (disk ?s1)\<rparr>"
    using Some id3 by (cases "getMemory k s") (simp add: updateMemory_def persistMemory_def Let_def)
  have "coherent (?s1\<lparr>cache := (cache ?s1)(k \<mapsto> ?m3),
                      disk := AList.update k (Stored ?m3) (disk ?s1)\<rparr>)"
    using s1(1) by (simp add: coherent_def update_conv')
  moreover have "own_files (AList.update k (Stored ?m3) (disk ?s1))"
    using s1(2) id3 by (rule own_files_update)
  ultimately show ?thesis by (simp add: res)
qed

lemma step_keeps:
  assumes "coherent s" and "own_files (disk s)" and "writes_succeed op"
  shows "coherent (step op s) \<and> own_files (disk (step op s))"
proof (cases op)
  case (StoreMemory w new_id now c tgs imp)
  then show ?thesis using assms storeMemory_keeps [OF assms(1,2)] by simp
next
  case (GetMemory k)
  then show ?thesis using getMemory_keeps [OF assms(1,2)] by simp
next
  case (UpdateMemory w k c tgs imp)
  then show ?thesis using assms updateMemory_keeps [OF assms(1,2)] by simp
next
  case (DeleteMemory r k)
  then show ?thesis using deleteMemory_keeps [OF assms(1,2)] by simp
next
  case (Evict k)
  then show ?thesis using evict_keeps [OF assms(1,2)] by simp
qed

lemma run_keeps:
  "coherent s \<Longrightarrow> own_files (disk s) \<Longrightarrow> \<forall>op \<in> set ops. writes_succeed op \<Longrightarrow>
   coherent (run ops s) \<and> own_files (disk (run ops s))"
proof (induction ops arbitrary: s)
  case Nil
  then show ?case by simp
next
  case (Cons op ops)
  have "coherent (step op s) \<and> own_files (disk (step op s))"
    using step_keeps Cons.prems by simp
  then show ?case using Cons.IH [of "step op s"] Cons.prems(3) by simp
qed

lemma getMemory_after_evict:
  assumes "coherent s"
  shows "fst (getMemory k (evict k' s)) = fst (getMemory k s)"
  using assms
  by (auto simp: getMemory_def evict_def coherent_def split: option.splits memory_file.splits)

text \<open>
  As long as every \<^verbatim>\<open>writeFile\<close> succeeds the cache never differs from the disk: the
  store starts with an empty cache on a directory of its own files, and after any
  sequence of \<^verbatim>\<open>storeMemory\<close>, \<^verbatim>\<open>getMemory\<close>, \<^verbatim>\<open>updateMemory\<close> and \<^verbatim>\<open>deleteMemory\<close>
  calls and evictions each cache entry is the record in the file of that id, and
  \<^verbatim>\<open>getMemory\<close> answers the same whether or not an entry has just been evicted.
\<close>

lemma cache_agrees_with_disk_while_writes_succeed:
  assumes "cache s0 = (\<lambda>k. None)" and "own_files (disk s0)"
    and "\<forall>op \<in> set ops. writes_succeed op"
  shows "(\<forall>k m. cache (run ops s0) k = Some m \<longrightarrow>
            map_of (disk (run ops s0)) k = Some (Stored m))
       \<and> (\<forall>k k'. fst (getMemory k (evict k' (run ops s0))) = fst (getMemory k (run ops s0)))"
proof -
  have "coherent s0" using assms(1) by (simp add: coherent_def)
  then have c: "coherent (run ops s0)" using run_keeps assms(2,3) by blast
  then have "\<forall>k k'. fst (getMemory k (evict k' (run ops s0))) = fst (getMemory k (run ops s0))"
    using getMemory_after_evict by blast
  then show ?thesis using c by (simp add: coherent_def)
qed

lemma session_agrees_with_disk:
  "fst (getMemory ''mem-x'' (evict ''mem-x'' (run session aged_store)))
       = Some \<lparr>mem_id = ''mem-x'', mem_content = ''second text'', mem_tags = [''draft''],
               mem_timestamp = 100 * day, mem_importance = 10, projectContext = ''shop''\<rparr>
   \<and> cache (run session aged_store) ''mem-x''
       = Some \<lparr>mem_id = ''mem-x'', mem_content = ''second text'', mem_tags = [''draft''],
               mem_timestamp = 100 * day, mem_importance = 10, projectContext = ''shop''\<rparr>"
proof -
  have h1: "cache aged_store = (\<lambda>k. None)" by (simp add: aged_store_def)
  have h2: "own_files (disk aged_store)" by (simp add: own_files_def aged_store_def)
  have h3: "\<forall>op \<in> set session. writes_succeed op" by (simp add: session_def)
  note inst = cache_agrees_with_disk_while_writes_succeed [OF h1 h2 h3]
  have e: "fst (getMemory ''mem-x'' (run session aged_store))
       = Some \<lparr>mem_id = ''mem-x'', mem_content = ''second text'', mem_tags = [''draft''],
               mem_timestamp = 100 * day, mem_importance = 10, projectContext = ''shop''\<rparr>"
    by code_simp
  have c: "cache (run session aged_store) ''mem-x''
       = Some \<lparr>mem_id = ''mem-x'', mem_content = ''second text'', mem_tags = [''draft''],
               mem_timestamp = 100 * day, mem_importance = 10, projectContext = ''shop''\<rparr>"
    by code_simp
  from inst have "fst (getMemory ''mem-x'' (evict ''mem-x'' (run session aged_store)))
      = fst (getMemory ''mem-x'' (run session aged_store))"
    by blast
  then show ?thesis using e c by simp
qed

text \<open>
  C6. The cache and the disk. \<^verbatim>\<open>storeMemory\<close> and \<^verbatim>\<open>updateMemory\<close> set the cache entry
  before they call \<^verbatim>\<open>persistMemory\<close>, and nothing takes the entry back when
  \<^verbatim>\<open>persistMemory\<close> throws. After a store whose \<^verbatim>\<open>writeFile\<close> fails the call has thrown,
  the directory has no file for the new id, the cache has the memory, \<^verbatim>\<open>getMemory\<close>
  returns it, and after the eviction of the entry \<^verbatim>\<open>getMemory\<close> returns \<^verbatim>\<open>null\<close>.
  After an update whose \<^verbatim>\<open>writeFile\<close> fails the file still has the first text, and
  \<^verbatim>\<open>getMemory\<close> returns the second text before the eviction and the first text after
  it. The cache entry differs from the record on disk, and the eviction is observable.
\<close>

theorem failed_write_leaves_cache_ahead_of_disk:
  "fst (storeMemory False ''mem-y'' (100 * day) ''unsaved text'' [''draft''] 5 aged_store)
       = Threw PersistFailed
   \<and> map_of (disk (run unsaved_store aged_store)) ''mem-y'' = None
   \<and> cache (run unsaved_store aged_store) ''mem-y''
       = Some \<lparr>mem_id = ''mem-y'', mem_content = ''unsaved text'', mem_tags = [''draft''],
               mem_timestamp = 100 * day, mem_importance = 5, projectContext = ''shop''\<rparr>
   \<and> fst (getMemory ''mem-y'' (run unsaved_store aged_store))
       = Some \<lparr>mem_id = ''mem-y'', mem_content = ''unsaved text'', mem_tags = [''draft''],
               mem_timestamp = 100 * day, mem_importance = 5, projectContext = ''shop''\<rparr>
   \<and> fst (getMemory ''mem-y'' (evict ''mem-y'' (run unsaved_store aged_store))) = None
   \<and> fst (updateMemory False ''mem-x'' (Some ''second text'') None None
             (run (take 1 unsaved_update) aged_store))
       = Threw PersistFailed
   \<and> map_of (disk (run unsaved_update aged_store)) ''mem-x''
       = Some (Stored \<lparr>mem_id = ''mem-x'', mem_content = ''first text'', mem_tags = [''draft''],
               mem_timestamp = 100 * day, mem_importance = 5, projectContext = ''shop''\<rparr>)
   \<and> fst (getMemory ''mem-x'' (run unsaved_update aged_store))
       = Some \<lparr>mem_id = ''mem-x'', mem_content = ''second text'', mem_tags = [''draft''],
               mem_timestamp = 100 * day, mem_importance = 5, projectContext = ''shop''\<rparr>
   \<and> fst (getMemory ''mem-x'' (evict ''mem-x'' (run unsaved_update aged_store)))
       = Some \<lparr>mem_id = ''mem-x'', mem_content = ''first text'', mem_tags = [''draft''],
               mem_timestamp = 100 * day, mem_importance = 5, projectContext = ''shop''\<rparr>"
  by code_simp

section \<open>Detection of the project identity\<close>

















end
